theory Spec2Isabelle
  imports Main "HOL-Library.Char_ord"
begin

section \<open>Conventions\<close>

text \<open>
  The program is JavaScript. A JavaScript string is modelled as a \<open>string\<close>; one \<open>char\<close>
  stands for one UTF-16 code unit below 256, so \<open>length\<close> is the \<open>.length\<close> of the source.
  A plain object with single-letter keys (the \<open>options\<close> of a question) is an association
  list with unique keys in insertion order, which is the order \<open>Object.keys\<close> lists them in.
  \<open>new Date()\<close> is a parameter of every operation that reads the clock and
  \<open>Math.random()\<close> is a parameter of the operations that draw questions.
  An exception is a value \<open>Inl e\<close>; the state an operation leaves behind is returned
  beside it, since a \<open>throw\<close> does not undo the assignments made before it.
\<close>

subsection \<open>Characters and strings of the JavaScript runtime\<close>

definition isUpper :: "char \<Rightarrow> bool" where
  \<comment> \<open>the class \<open>[A-Z]\<close>\<close>
  "isUpper c = (CHR ''A'' \<le> c \<and> c \<le> CHR ''Z'')"

definition isDigit :: "char \<Rightarrow> bool" where
  \<comment> \<open>the class \<open>\d\<close>\<close>
  "isDigit c = (CHR ''0'' \<le> c \<and> c \<le> CHR ''9'')"

definition isLineTerminator :: "char \<Rightarrow> bool" where
  \<comment> \<open>LF and CR; the other two line terminators of the language lie beyond code unit 255\<close>
  "isLineTerminator c = (c = CHR 0x0A \<or> c = CHR 0x0D)"

definition isSpace :: "char \<Rightarrow> bool" where
  \<comment> \<open>the class \<open>\s\<close>, which is also what \<open>trim\<close> strips: TAB, LF, VT, FF, CR, SP, NBSP\<close>
  "isSpace c = (c = CHR 0x09 \<or> c = CHR 0x0A \<or> c = CHR 0x0B \<or> c = CHR 0x0C \<or> c = CHR 0x0D
                \<or> c = CHR 0x20 \<or> c = CHR 0xA0)"

definition trim :: "string \<Rightarrow> string" where
  "trim s = rev (dropWhile isSpace (rev (dropWhile isSpace s)))"

text \<open>\<open>obj[k]\<close> and \<open>obj[k] = v\<close> on a plain object: a new key goes last, an existing key
  keeps its place.\<close>

type_synonym 'v obj = "(char \<times> 'v) list"

fun obj_set :: "'v obj \<Rightarrow> char \<Rightarrow> 'v \<Rightarrow> 'v obj" where
  "obj_set [] k v = [(k, v)]"
| "obj_set ((k', v') # kvs) k v = (if k' = k then (k, v) # kvs else (k', v') # obj_set kvs k v)"

definition obj_get :: "'v obj \<Rightarrow> char \<Rightarrow> 'v option" where
  "obj_get kvs k = map_of kvs k"

definition obj_get_str :: "'v obj \<Rightarrow> string \<Rightarrow> 'v option" where
  \<comment> \<open>\<open>obj[s]\<close> for a string \<open>s\<close> of any length: only a one-letter string can be a key\<close>
  "obj_get_str kvs s = (case s of [k] \<Rightarrow> obj_get kvs k | _ \<Rightarrow> None)"

definition truthy :: "string option \<Rightarrow> bool" where
  \<comment> \<open>\<open>undefined\<close>, \<open>null\<close> and the empty string are the falsy values a string slot can hold\<close>
  "truthy v = (case v of None \<Rightarrow> False | Some s \<Rightarrow> s \<noteq> [])"

text \<open>\<open>arr[i] = v\<close>: JavaScript extends a shorter array, leaving holes that read as
  \<open>undefined\<close>.\<close>

definition array_set :: "'a option list \<Rightarrow> nat \<Rightarrow> 'a \<Rightarrow> 'a option list" where
  "array_set xs i v =
     (if i < length xs then xs[i := Some v]
      else xs @ replicate (i - length xs) None @ [Some v])"

definition array_get :: "'a option list \<Rightarrow> nat \<Rightarrow> 'a option" where
  "array_get xs i = (if i < length xs then xs ! i else None)"

section \<open>Question records\<close>

record metadata =
  questionIndex :: nat
  blockLength :: nat
  timestamp :: nat
  optionCount :: nat
  correctAnswerCount :: nat
  contentLength :: nat

record question =
  qid :: string
  title :: string
  content :: string
  options :: "string obj"
  correctAnswers :: "char list"
  rawBlock :: string
  extractionMetadata :: metadata

text \<open>
  Question records are objects: the pool array, the engine's \<open>allQuestions\<close> and its
  \<open>selectedQuestions\<close> hold references to the same records. The store maps an address
  to the record it holds, and the arrays are lists of addresses.
\<close>

type_synonym addr = nat
type_synonym store = "addr \<Rightarrow> question"

section \<open>QuizEngine\<close>

text \<open>
  The errors the engine throws, one constructor for each \<open>throw\<close> that typed arguments
  can reach (a pool that is no array, a missing question or a missing options object
  cannot be written down here).
\<close>

datatype engine_error =
    NoQuestionsAvailable
  | NoValidQuestionsLeft
  | QuizNotInitialized
  | QuizAlreadyCompleted
  | QuestionIndexOutOfRange nat nat
  | AnswerNotAString
  | EmptyAnswer
  | AnswerTooLong nat
  | AnswerBadFormat string
  | AnswerNotAnOption string

datatype engine_log = LogError engine_error | LogInvalidQuestions nat

record engine =
  allQuestions :: "addr list"
  numberOfQuestions :: int
  selectedQuestions :: "addr list"
  currentIndex :: nat
  userAnswers :: "string option list"
  startTime :: "nat option"
  endTime :: "nat option"
  isCompleted :: bool
  engineErrors :: "(nat \<times> engine_log) list"
  validationWarnings :: "(nat \<times> engine_log) list"
  enableDetailedLogging_engine :: bool   \<comment> \<open>the engine's \<open>enableDetailedLogging\<close>\<close>

definition maxAnswerLength :: nat where
  "maxAnswerLength = 10"

subsection \<open>Construction\<close>

definition validateQuestionStructure :: "question \<Rightarrow> bool" where
  \<comment> \<open>the \<open>isValid\<close> of the source: no error was collected\<close>
  "validateQuestionStructure q =
     (qid q \<noteq> [] \<and> content q \<noteq> [] \<and> \<not> length (options q) < 2 \<and> correctAnswers q \<noteq> [])"

text \<open>
  \<open>log(level, ...)\<close> returns at once when \<open>enableDetailedLogging\<close> is off; otherwise an
  entry of level \<open>error\<close> is appended to \<open>engineErrors\<close> and one of level \<open>warn\<close> to
  \<open>validationWarnings\<close>.
\<close>

definition logWarn :: "nat \<Rightarrow> engine_log \<Rightarrow> engine \<Rightarrow> engine" where
  "logWarn now entry e =
     (if \<not> enableDetailedLogging_engine e then e
      else e\<lparr>validationWarnings := validationWarnings e @ [(now, entry)]\<rparr>)"

definition logError :: "nat \<Rightarrow> engine_error \<Rightarrow> engine \<Rightarrow> engine" where
  "logError now err e =
     (if \<not> enableDetailedLogging_engine e then e
      else e\<lparr>engineErrors := engineErrors e @ [(now, LogError err)]\<rparr>)"

definition validateInitialQuestions ::
  "store \<Rightarrow> nat \<Rightarrow> engine \<Rightarrow> engine_error + engine" where
  "validateInitialQuestions h now e =
     (if allQuestions e = [] then Inl NoQuestionsAvailable
      else
        let invalidQuestions =
              filter (\<lambda>i. \<not> validateQuestionStructure (h (allQuestions e ! i)))
                [0 ..< length (allQuestions e)]
        in if length invalidQuestions > 0 then
             let e1 = logWarn now (LogInvalidQuestions (length invalidQuestions)) e;
                 e2 = e1\<lparr>allQuestions :=
                        map (\<lambda>i. allQuestions e1 ! i)
                          (filter (\<lambda>i. i \<notin> set invalidQuestions)
                             [0 ..< length (allQuestions e1)])\<rparr>
             in if allQuestions e2 = [] then Inl NoValidQuestionsLeft else Inr e2
           else Inr e)"

text \<open>
  The drawing loop of \<open>selectRandomQuestions\<close>. \<open>rnd i\<close> stands for the \<open>i\<close>-th value of
  \<open>Math.random()\<close>; \<open>Math.floor(Math.random() * n)\<close> is some index below \<open>n\<close>, here
  \<open>rnd i mod n\<close>. \<open>splice(randomIndex, 1)\<close> removes the chosen element.
\<close>

lemma splice_shorter: "0 < k \<Longrightarrow> r mod k + (k - Suc (r mod k)) < (k::nat)"
  using mod_less_divisor [of k r] by linarith

function selectLoop ::
  "(nat \<Rightarrow> nat) \<Rightarrow> int \<Rightarrow> nat \<Rightarrow> addr list \<Rightarrow> addr list \<Rightarrow> addr list" where
  "selectLoop rnd n i availableQuestions selected =
     (if int i < n \<and> length availableQuestions > 0 then
        let randomIndex = rnd i mod length availableQuestions;
            selectedQuestion = availableQuestions ! randomIndex
        in selectLoop rnd n (i + 1)
             (take randomIndex availableQuestions @ drop (randomIndex + 1) availableQuestions)
             (selected @ [selectedQuestion])
      else selected)"
  by pat_completeness auto
termination
  by (relation "measure (\<lambda>(rnd, n, i, av, sel). length av)") (auto simp: splice_shorter)

declare selectLoop.simps [simp del]

definition selectRandomQuestions :: "(nat \<Rightarrow> nat) \<Rightarrow> engine \<Rightarrow> engine" where
  "selectRandomQuestions rnd e =
     (let sel = selectLoop rnd (numberOfQuestions e) 0 (allQuestions e) []
      in e\<lparr>selectedQuestions := sel, userAnswers := replicate (length sel) None\<rparr>)"

definition QuizEngine ::
  "store \<Rightarrow> (nat \<Rightarrow> nat) \<Rightarrow> nat \<Rightarrow> addr list \<Rightarrow> int option \<Rightarrow> engine_error + engine" where
  \<comment> \<open>the constructor; the count defaults to 10 when the caller gives none\<close>
  "QuizEngine h rnd now questions requested =
     (let numberOfQuestions0 = (case requested of None \<Rightarrow> 10 | Some n \<Rightarrow> n);
          e = \<lparr>allQuestions = questions,
               numberOfQuestions = min numberOfQuestions0 (int (length questions)),
               selectedQuestions = [],
               currentIndex = 0,
               userAnswers = [],
               startTime = None,
               endTime = None,
               isCompleted = False,
               engineErrors = [],
               validationWarnings = [],
               enableDetailedLogging_engine = True\<rparr>
      in case validateInitialQuestions h now e of
           Inl err \<Rightarrow> Inl err
         | Inr e' \<Rightarrow> Inr (selectRandomQuestions rnd e'))"

subsection \<open>Answers\<close>

definition validateQuizState :: "engine \<Rightarrow> engine_error + unit" where
  "validateQuizState e =
     (if length (selectedQuestions e) = 0 then Inl QuizNotInitialized
      else if isCompleted e then Inl QuizAlreadyCompleted
      else Inr ())"

definition validateAnswerFormat :: "string \<Rightarrow> engine_error + unit" where
  \<comment> \<open>the empty string is falsy, so the first test already refuses it\<close>
  "validateAnswerFormat answer =
     (if answer = [] then Inl AnswerNotAString
      else if length answer = 0 then Inl EmptyAnswer
      else if length answer > maxAnswerLength then Inl (AnswerTooLong (length answer))
      else if \<not> (answer \<noteq> [] \<and> list_all isUpper answer) then Inl (AnswerBadFormat answer)
      else Inr ())"

fun firstInvalidLetter :: "string obj \<Rightarrow> string \<Rightarrow> char option" where
  \<comment> \<open>the \<open>for\<close> loop over the letters: the first one whose option is missing or empty\<close>
  "firstInvalidLetter opts [] = None"
| "firstInvalidLetter opts (letter # rest) =
     (if \<not> truthy (obj_get opts letter) then Some letter else firstInvalidLetter opts rest)"

definition validateAnswerForQuestion :: "string \<Rightarrow> question \<Rightarrow> engine_error + unit" where
  "validateAnswerForQuestion answer q =
     (if length answer > 1 then
        (case firstInvalidLetter (options q) answer of
           Some letter \<Rightarrow> Inl (AnswerNotAnOption [letter])
         | None \<Rightarrow> Inr ())
      else if \<not> truthy (obj_get_str (options q) answer) then Inl (AnswerNotAnOption answer)
      else Inr ())"

text \<open>
  \<open>isAnswerCorrect\<close>. With more than one letter the answer is split and sorted, and
  \<open>question.correctAnswers.sort()\<close> sorts the array of the record itself, in place: the
  store is returned with it. With one letter the test is \<open>includes\<close>.
\<close>

definition isAnswerCorrect :: "store \<Rightarrow> engine \<Rightarrow> nat \<Rightarrow> string \<Rightarrow> bool \<times> store" where
  "isAnswerCorrect h e questionIdx userAnswer =
     (if questionIdx \<ge> length (selectedQuestions e) then (False, h)
      else
        let a = selectedQuestions e ! questionIdx in
        if length userAnswer > 1 then
          let userAnswerArray = sort userAnswer;
              correctAnswerArray = sort (correctAnswers (h a));
              h' = h(a := (h a)\<lparr>correctAnswers := correctAnswerArray\<rparr>)
          in (length userAnswerArray = length correctAnswerArray \<and>
              list_all (\<lambda>i. userAnswerArray ! i = correctAnswerArray ! i)
                [0 ..< length userAnswerArray], h')
        else
          (case userAnswer of
             [letter] \<Rightarrow> (letter \<in> set (correctAnswers (h a)), h)
           | _ \<Rightarrow> (False, h)))"

record outcome =
  o_questionIndex :: nat
  o_answer :: string
  o_isCorrect :: bool
  o_questionId :: string

definition submitAnswer ::
  "nat \<Rightarrow> store \<Rightarrow> engine \<Rightarrow> string \<Rightarrow> (engine_error + outcome) \<times> store \<times> engine" where
  "submitAnswer now h e selectedAnswer =
     (case validateQuizState e of
        Inl err \<Rightarrow> (Inl err, h, logError now err e)
      | Inr _ \<Rightarrow>
        if currentIndex e \<ge> length (selectedQuestions e) then
          (let err = QuestionIndexOutOfRange (currentIndex e) (length (selectedQuestions e))
           in (Inl err, h, logError now err e))
        else
          let e1 = (if startTime e = None then e\<lparr>startTime := Some now\<rparr> else e) in
          (case validateAnswerFormat selectedAnswer of
             Inl err \<Rightarrow> (Inl err, h, logError now err e1)
           | Inr _ \<Rightarrow>
             let currentQuestion = h (selectedQuestions e1 ! currentIndex e1) in
             (case validateAnswerForQuestion selectedAnswer currentQuestion of
                Inl err \<Rightarrow> (Inl err, h, logError now err e1)
              | Inr _ \<Rightarrow>
                let e2 = e1\<lparr>userAnswers :=
                           array_set (userAnswers e1) (currentIndex e1) selectedAnswer\<rparr>;
                    (isCorrect, h') = isAnswerCorrect h e2 (currentIndex e2) selectedAnswer
                in (Inr \<lparr>o_questionIndex = currentIndex e2,
                          o_answer = selectedAnswer,
                          o_isCorrect = isCorrect,
                          o_questionId = qid currentQuestion\<rparr>, h', e2))))"

subsection \<open>Moving through the questions\<close>

definition nextQuestion :: "nat \<Rightarrow> engine \<Rightarrow> bool \<times> engine" where
  \<comment> \<open>the flag tells whether a next question is returned (\<open>null\<close> otherwise)\<close>
  "nextQuestion now e =
     (if int (currentIndex e) < int (length (selectedQuestions e)) - 1 then
        (let e' = e\<lparr>currentIndex := currentIndex e + 1\<rparr>
         in (\<not> currentIndex e' \<ge> length (selectedQuestions e'), e'))
      else if int (currentIndex e) = int (length (selectedQuestions e)) - 1 then
        (False, e\<lparr>isCompleted := True, endTime := Some now\<rparr>)
      else (False, e))"

definition previousQuestion :: "engine \<Rightarrow> bool \<times> engine" where
  "previousQuestion e =
     (if currentIndex e > 0 then
        (let e' = e\<lparr>currentIndex := currentIndex e - 1\<rparr>
         in (\<not> currentIndex e' \<ge> length (selectedQuestions e'), e'))
      else (False, e))"

definition restart :: "engine \<Rightarrow> engine" where
  "restart e =
     e\<lparr>currentIndex := 0,
       userAnswers := replicate (length (selectedQuestions e)) None,
       startTime := None, endTime := None, isCompleted := False\<rparr>"

definition startNewQuiz :: "(nat \<Rightarrow> nat) \<Rightarrow> int option \<Rightarrow> engine \<Rightarrow> engine" where
  "startNewQuiz rnd requested e =
     (let e1 = (case requested of
                  None \<Rightarrow> e
                | Some n \<Rightarrow> e\<lparr>numberOfQuestions := min n (int (length (allQuestions e)))\<rparr>)
      in selectRandomQuestions rnd
           (e1\<lparr>currentIndex := 0, startTime := None, endTime := None, isCompleted := False\<rparr>))"

subsection \<open>Scoring\<close>

text \<open>
  The counting loop of \<open>calculateScore\<close>. Each test may call \<open>isAnswerCorrect\<close>, so the
  store is threaded through. The \<open>score\<close> field of the source is the floating-point
  expression \<open>Math.round((correctCount / total) * 100)\<close> of the two numbers returned here.
\<close>

fun countCorrect :: "store \<Rightarrow> engine \<Rightarrow> nat list \<Rightarrow> nat \<Rightarrow> nat \<times> store" where
  "countCorrect h e [] correctCount = (correctCount, h)"
| "countCorrect h e (i # is) correctCount =
     (case array_get (userAnswers e) i of
        None \<Rightarrow> countCorrect h e is correctCount
      | Some userAnswer \<Rightarrow>
          if userAnswer = [] then countCorrect h e is correctCount
          else
            (case isAnswerCorrect h e i userAnswer of
               (True, h') \<Rightarrow> countCorrect h' e is (correctCount + 1)
             | (False, h') \<Rightarrow> countCorrect h' e is correctCount))"

record score =
  correctCount :: nat
  totalQuestions :: nat

definition calculateScore :: "store \<Rightarrow> engine \<Rightarrow> score \<times> store" where
  "calculateScore h e =
     (case countCorrect h e [0 ..< length (selectedQuestions e)] 0 of
        (c, h') \<Rightarrow> (\<lparr>correctCount = c, totalQuestions = length (selectedQuestions e)\<rparr>, h'))"

section \<open>Regular expressions of the parser\<close>

text \<open>
  The patterns of the parser are sequences of the atoms below, matched as the JavaScript
  engine matches them: left to right, each quantifier trying its alternatives in order
  (greedy: longest first; lazy: shortest first) and the first alternative with which the
  rest of the pattern matches wins.
\<close>

datatype cls =
    Upper            \<comment> \<open>\<open>[A-Z]\<close>\<close>
  | Digit            \<comment> \<open>\<open>\d\<close>\<close>
  | Space            \<comment> \<open>\<open>\s\<close>\<close>
  | Dot              \<comment> \<open>\<open>.\<close>: any character but a line terminator\<close>
  | AnyChar          \<comment> \<open>\<open>[\s\S]\<close>\<close>
  | Is char          \<comment> \<open>an escaped character, as in \<open>\.\<close>\<close>
  | IsNot char       \<comment> \<open>\<open>[^c]\<close>\<close>
  | Between char char \<comment> \<open>\<open>[a-b]\<close>\<close>

fun cls_match :: "cls \<Rightarrow> char \<Rightarrow> bool" where
  "cls_match Upper c = isUpper c"
| "cls_match Digit c = isDigit c"
| "cls_match Space c = isSpace c"
| "cls_match Dot c = (\<not> isLineTerminator c)"
| "cls_match AnyChar c = True"
| "cls_match (Is d) c = (c = d)"
| "cls_match (IsNot d) c = (c \<noteq> d)"
| "cls_match (Between a b) c = (a \<le> c \<and> c \<le> b)"

datatype atom =
    Lit string               \<comment> \<open>literal text\<close>
  | Cls cls                  \<comment> \<open>one character of a class\<close>
  | Opt string               \<comment> \<open>\<open>(?:text)?\<close>\<close>
  | Many cls                 \<comment> \<open>\<open>c*\<close>, greedy\<close>
  | ManyLazy cls             \<comment> \<open>\<open>c*?\<close>, lazy\<close>
  | Bol bool                 \<comment> \<open>\<open>^\<close>; the flag is the \<open>m\<close> flag of the pattern\<close>
  | Eol bool                 \<comment> \<open>\<open>$\<close>; the flag is the \<open>m\<close> flag of the pattern\<close>
  | Open nat                 \<comment> \<open>start of capture group \<open>n\<close>\<close>
  | Close nat                \<comment> \<open>end of capture group \<open>n\<close>\<close>
  | Ahead "string list" bool \<comment> \<open>\<open>(?=t1|t2|...)\<close>, with the alternative \<open>$\<close> when the flag is set\<close>
  | LitCI string             \<comment> \<open>literal text of a pattern with the \<open>i\<close> flag\<close>

definition startsWith :: "string \<Rightarrow> string \<Rightarrow> bool" where
  "startsWith s t = (take (length t) s = t)"

text \<open>
  Under the \<open>i\<close> flag two characters match when their upper-case forms are equal. The
  literals of the patterns are ASCII, and no character from 128 on has an ASCII upper-case
  form, so only the letters \<open>a\<close> to \<open>z\<close> are folded.
\<close>

definition canon :: "char \<Rightarrow> char" where
  "canon c = (if CHR ''a'' \<le> c \<and> c \<le> CHR ''z'' then char_of (of_char c - (32::nat)) else c)"

definition startsWithCI :: "string \<Rightarrow> string \<Rightarrow> bool" where
  "startsWithCI s t = (map canon (take (length t) s) = map canon t)"

definition lastOr :: "char option \<Rightarrow> string \<Rightarrow> char option" where
  "lastOr p t = (if t = [] then p else Some (last t))"

type_synonym groups = "(nat \<times> string) list"

text \<open>
  \<open>rmatch pattern p s opened gs\<close> matches the pattern at the start of \<open>s\<close>; \<open>p\<close> is the
  character before \<open>s\<close> in the input (\<open>None\<close> at the start of the input). The result is
  the character before the rest, the rest of the input, and the capture groups.
\<close>

fun rmatch ::
  "atom list \<Rightarrow> char option \<Rightarrow> string \<Rightarrow> groups \<Rightarrow> groups \<Rightarrow> (char option \<times> string \<times> groups) option"
where
  "rmatch [] p s opened gs = Some (p, s, gs)"
| "rmatch (Lit t # as) p s opened gs =
     (if startsWith s t then rmatch as (lastOr p t) (drop (length t) s) opened gs else None)"
| "rmatch (Cls c # as) p [] opened gs = None"
| "rmatch (Cls c # as) p (x # xs) opened gs =
     (if cls_match c x then rmatch as (Some x) xs opened gs else None)"
| "rmatch (Opt t # as) p s opened gs =
     (if startsWith s t then
        (case rmatch as (lastOr p t) (drop (length t) s) opened gs of
           Some r \<Rightarrow> Some r
         | None \<Rightarrow> rmatch as p s opened gs)
      else rmatch as p s opened gs)"
| "rmatch (Many c # as) p [] opened gs = rmatch as p [] opened gs"
| "rmatch (Many c # as) p (x # xs) opened gs =
     (if cls_match c x then
        (case rmatch (Many c # as) (Some x) xs opened gs of
           Some r \<Rightarrow> Some r
         | None \<Rightarrow> rmatch as p (x # xs) opened gs)
      else rmatch as p (x # xs) opened gs)"
| "rmatch (ManyLazy c # as) p [] opened gs = rmatch as p [] opened gs"
| "rmatch (ManyLazy c # as) p (x # xs) opened gs =
     (case rmatch as p (x # xs) opened gs of
        Some r \<Rightarrow> Some r
      | None \<Rightarrow> if cls_match c x then rmatch (ManyLazy c # as) (Some x) xs opened gs else None)"
| "rmatch (Bol multiline # as) p s opened gs =
     (case p of
        None \<Rightarrow> rmatch as p s opened gs
      | Some c \<Rightarrow> if multiline \<and> isLineTerminator c then rmatch as p s opened gs else None)"
| "rmatch (Eol multiline # as) p s opened gs =
     (case s of
        [] \<Rightarrow> rmatch as p s opened gs
      | c # cs \<Rightarrow> if multiline \<and> isLineTerminator c then rmatch as p s opened gs else None)"
| "rmatch (Open n # as) p s opened gs = rmatch as p s ((n, s) # opened) gs"
| "rmatch (Close n # as) p s opened gs =
     (case map_of opened n of
        Some s0 \<Rightarrow> rmatch as p s opened ((n, take (length s0 - length s) s0) # gs)
      | None \<Rightarrow> rmatch as p s opened gs)"
| "rmatch (Ahead ts atEnd # as) p s opened gs =
     (if list_ex (startsWith s) ts \<or> (atEnd \<and> s = []) then rmatch as p s opened gs else None)"
| "rmatch (LitCI t # as) p s opened gs =
     (if startsWithCI s t
      then rmatch as (lastOr p (take (length t) s)) (drop (length t) s) opened gs
      else None)"

text \<open>
  \<open>exec\<close> on a pattern: the leftmost position, from the cursor on, at which the pattern
  matches. The cursor is the input from \<open>lastIndex\<close> on together with the character
  before it; \<open>i\<close> counts the positions passed over.
\<close>

record rx_match =
  m_index :: nat          \<comment> \<open>where the match starts, counted from the cursor\<close>
  m_text :: string        \<comment> \<open>\<open>match[0]\<close>\<close>
  m_groups :: groups
  m_prev :: "char option" \<comment> \<open>the cursor after the match: \<open>lastIndex\<close> of a global pattern\<close>
  m_rest :: string

fun search :: "atom list \<Rightarrow> nat \<Rightarrow> char option \<Rightarrow> string \<Rightarrow> rx_match option" where
  "search re i p [] =
     (case rmatch re p [] [] [] of
        Some (p', r, gs) \<Rightarrow>
          Some \<lparr>m_index = i, m_text = [], m_groups = gs, m_prev = p', m_rest = r\<rparr>
      | None \<Rightarrow> None)"
| "search re i p (x # xs) =
     (case rmatch re p (x # xs) [] [] of
        Some (p', r, gs) \<Rightarrow>
          Some \<lparr>m_index = i, m_text = take (length (x # xs) - length r) (x # xs),
                m_groups = gs, m_prev = p', m_rest = r\<rparr>
      | None \<Rightarrow> search re (i + 1) (Some x) xs)"

definition group :: "nat \<Rightarrow> rx_match \<Rightarrow> string" where
  "group n m = (case map_of (m_groups m) n of Some g \<Rightarrow> g | None \<Rightarrow> [])"

definition DQ :: char where
  "DQ = CHR 0x22"

definition questionBlockRegex :: "atom list" where
  "questionBlockRegex =
     [Lit ''## Pregunta '', Cls Digit, Many Digit, Lit ''\<newline>\<newline>'',
      Open 1, ManyLazy AnyChar, Close 1,
      Ahead [''## Pregunta'', ''\<newline>---'', ''\<newline>#''] True]"

definition optionRegex :: "atom list" where
  "optionRegex =
     [Bol True, Opt ''**'', Open 1, Cls Upper, Close 1, Opt ''**'', Many (Is CHR ''.''),
      Cls Space, Many Space, Open 2, Cls Dot, Many Dot, Close 2, Eol True]"

definition correctAnswerRegex :: "atom list" where
  "correctAnswerRegex =
     [Lit ''<as-button'', Many (IsNot CHR ''>''), Lit (''message='' @ [DQ]),
      Open 1, Cls (IsNot DQ), Many (IsNot DQ), Close 1, Lit [DQ],
      Many (IsNot CHR ''>''), Lit ''>'']"

definition inquireAnswerRegex :: "atom list" where
  "inquireAnswerRegex =
     [Lit ''<as-button'', Many (IsNot CHR ''>''), Lit (''inquire='' @ [DQ]),
      Open 1, Cls (IsNot DQ), Many (IsNot DQ), Close 1, Lit [DQ],
      Many (IsNot CHR ''>''), Lit ''>'']"

definition questionNumberRegex :: "atom list" where
  "questionNumberRegex = [Lit ''## Pregunta '', Open 1, Cls Digit, Many Digit, Close 1]"

definition optionLineRegex :: "atom list" where
  \<comment> \<open>the pattern \<open>extractQuestionContent\<close> tests each line with\<close>
  "optionLineRegex = [Bol False, Opt ''**'', Cls Upper, Opt ''**'', Lit ''.'']"

definition boldRegex :: "atom list" where
  "boldRegex = [Lit ''**'', Open 1, ManyLazy Dot, Close 1, Lit ''**'']"

definition italicRegex :: "atom list" where
  "italicRegex = [Lit ''*'', Open 1, ManyLazy Dot, Close 1, Lit ''*'']"


subsection \<open>Every match of a pattern that demands a character moves the cursor\<close>

fun needs :: "atom list \<Rightarrow> nat" where
  "needs [] = 0"
| "needs (Lit t # as) = length t + needs as"
| "needs (Cls c # as) = 1 + needs as"
| "needs (Opt t # as) = needs as"
| "needs (Many c # as) = needs as"
| "needs (ManyLazy c # as) = needs as"
| "needs (Bol b # as) = needs as"
| "needs (Eol b # as) = needs as"
| "needs (Open n # as) = needs as"
| "needs (Close n # as) = needs as"
| "needs (Ahead ts b # as) = needs as"
| "needs (LitCI t # as) = length t + needs as"

lemma startsWith_length: "startsWith s t \<Longrightarrow> length t \<le> length s"
proof -
  assume "startsWith s t"
  then have "length (take (length t) s) = length t" by (simp add: startsWith_def)
  then show ?thesis by simp
qed

lemma startsWithCI_length: "startsWithCI s t \<Longrightarrow> length t \<le> length s"
proof -
  assume "startsWithCI s t"
  then have "length (map canon (take (length t) s)) = length (map canon t)"
    by (simp add: startsWithCI_def)
  then show ?thesis by simp
qed

lemma rmatch_consumes:
  "rmatch re p s opened gs = Some (p', r, gs') \<Longrightarrow> length r + needs re \<le> length s"
proof (induction re p s opened gs arbitrary: p' r gs' rule: rmatch.induct)
  case (2 t as p s opened gs)
  then show ?case using startsWith_length [of s t]
    by (fastforce split: if_splits)
next
  case (5 t as p s opened gs)
  then show ?case using startsWith_length [of s t]
    by (fastforce split: if_splits option.splits)
next
  case (7 c as p x xs opened gs)
  then show ?case by (fastforce split: if_splits option.splits)
next
  case (9 c as p x xs opened gs)
  then show ?case by (fastforce split: if_splits option.splits)
next
  case (15 t as p s opened gs)
  then show ?case using startsWithCI_length [of s t]
    by (fastforce split: if_splits)
qed (fastforce split: if_splits option.splits list.splits)+

lemma search_consumes:
  "search re i p s = Some m \<Longrightarrow> length (m_rest m) + needs re \<le> length s"
proof (induction s arbitrary: i p)
  case Nil
  then show ?case by (auto split: option.splits dest: rmatch_consumes)
next
  case (Cons x xs)
  then show ?case by (fastforce split: option.splits dest: rmatch_consumes)
qed

section \<open>MarkdownParser\<close>

subsection \<open>String helpers of the runtime\<close>

fun split_nl :: "string \<Rightarrow> string list" where
  \<comment> \<open>\<open>split('\n')\<close>\<close>
  "split_nl [] = [[]]"
| "split_nl (c # cs) =
     (if c = CHR 0x0A then [] # split_nl cs
      else (case split_nl cs of [] \<Rightarrow> [[c]] | l # ls \<Rightarrow> (c # l) # ls))"

fun str_includes :: "string \<Rightarrow> string \<Rightarrow> bool" where
  \<comment> \<open>\<open>s.includes(t)\<close>\<close>
  "str_includes [] t = (t = [])"
| "str_includes (c # cs) t = (startsWith (c # cs) t \<or> str_includes cs t)"

definition padStart :: "string \<Rightarrow> nat \<Rightarrow> char \<Rightarrow> string" where
  "padStart s n c = replicate (n - length s) c @ s"

subsection \<open>State, messages and errors\<close>

datatype extract_error = NoQuestionNumber | NoQuestionContent | NoOptions | NoCorrectAnswers

text \<open>
  The messages the parser records. A message of the source is a text with values spliced
  in; here it is a constructor applied to those values. The \<open>data\<close> object that \<open>log\<close>
  attaches to an entry (a preview of the block, the stack of the error) is left out, but
  for the copy of \<open>validationErrors\<close> that the warning about an omitted question holds
  (\<open>errors: this.getLastValidationErrors()\<close>). The warning about a failed validation
  holds the array itself, not a copy; that reference is left out.
\<close>

datatype message =
    MarkdownContentNull
  | MarkdownContentEmpty
  | NoQuestionBlocks
  | ExtractionError nat extract_error
  | ProcessingError nat extract_error
  | QuestionOmitted nat "(nat \<times> message) list"
  | ValidationFailed nat
  | QuestionsSkipped nat
  | NoValidQuestionsProcessed
  | MissingId
  | MissingTitle
  | MissingContent
  | ContentTooShort nat
  | ContentTooLong nat
  | ContentBlank
  | TooFewOptions nat
  | TooManyOptions nat
  | RequiredOptionMissing char
  | BadOptionLetter char
  | OptionTextMissing char
  | OptionTextBlank char
  | OptionTextTooLong char nat
  | NoCorrectAnswersDefined
  | BadCorrectAnswer char
  | DuplicateCorrectAnswers
  | CorrectAnswerNotAnOption char

record parser =
  blockLastIndex :: nat   \<comment> \<open>\<open>questionBlockRegex.lastIndex\<close>: the pattern has the \<open>g\<close> flag\<close>
  validationErrors :: "(nat \<times> message) list"
  parsingWarnings :: "(nat \<times> message) list"
  processedQuestions :: nat
  skippedQuestions :: nat
  enableDetailedLogging :: bool

datatype parse_error = InvalidMarkdownContent | NoValidQuestionsFound

definition MarkdownParser :: parser where
  \<comment> \<open>the constructor\<close>
  "MarkdownParser = \<lparr>blockLastIndex = 0, validationErrors = [], parsingWarnings = [],
     processedQuestions = 0, skippedQuestions = 0, enableDetailedLogging = True\<rparr>"

text \<open>
  \<open>log(level, ...)\<close> returns at once when \<open>enableDetailedLogging\<close> is off. Otherwise it
  stores an entry of level \<open>error\<close> in \<open>validationErrors\<close> and one of level \<open>warn\<close> in
  \<open>parsingWarnings\<close>. \<open>addValidationError\<close> does not ask the switch.
\<close>

definition log_error :: "nat \<Rightarrow> message \<Rightarrow> parser \<Rightarrow> parser" where
  \<comment> \<open>\<open>log('error', ...)\<close>\<close>
  "log_error now msg st =
     (if \<not> enableDetailedLogging st then st
      else st\<lparr>validationErrors := validationErrors st @ [(now, msg)]\<rparr>)"

definition log_warn :: "nat \<Rightarrow> message \<Rightarrow> parser \<Rightarrow> parser" where
  \<comment> \<open>\<open>log('warn', ...)\<close>\<close>
  "log_warn now msg st =
     (if \<not> enableDetailedLogging st then st
      else st\<lparr>parsingWarnings := parsingWarnings st @ [(now, msg)]\<rparr>)"

definition minContentLength :: nat where "minContentLength = 10"
definition maxContentLength :: nat where "maxContentLength = 2000"
definition minOptions :: nat where "minOptions = 2"
definition maxOptions :: nat where "maxOptions = 8"
definition requiredOptionLetters :: "char list" where "requiredOptionLetters = ''AB''"
definition maxOptionTextLength :: nat where "maxOptionTextLength = 500"

subsection \<open>Extraction\<close>

text \<open>
  \<open>text.replace(pattern, '$1')\<close> for the two global patterns of \<open>cleanOptionText\<close>: every
  match, left to right, is replaced by its group 1.
\<close>

function replaceBold :: "char option \<Rightarrow> string \<Rightarrow> string" where
  "replaceBold p s =
     (case search boldRegex 0 p s of
        None \<Rightarrow> s
      | Some m \<Rightarrow> take (m_index m) s @ group 1 m @ replaceBold (m_prev m) (m_rest m))"
  by pat_completeness auto
termination
proof (relation "measure (\<lambda>(p, s). length s)")
  fix p s m assume "search boldRegex 0 p s = Some m"
  from search_consumes [OF this]
  show "((m_prev m, m_rest m), (p, s)) \<in> measure (\<lambda>(p, s). length s)"
    by (simp add: boldRegex_def)
qed simp

declare replaceBold.simps [simp del]

function replaceItalic :: "char option \<Rightarrow> string \<Rightarrow> string" where
  "replaceItalic p s =
     (case search italicRegex 0 p s of
        None \<Rightarrow> s
      | Some m \<Rightarrow> take (m_index m) s @ group 1 m @ replaceItalic (m_prev m) (m_rest m))"
  by pat_completeness auto
termination
proof (relation "measure (\<lambda>(p, s). length s)")
  fix p s m assume "search italicRegex 0 p s = Some m"
  from search_consumes [OF this]
  show "((m_prev m, m_rest m), (p, s)) \<in> measure (\<lambda>(p, s). length s)"
    by (simp add: italicRegex_def)
qed simp

declare replaceItalic.simps [simp del]

definition cleanOptionText :: "string \<Rightarrow> string" where
  "cleanOptionText text0 = trim (replaceItalic None (replaceBold None text0))"

text \<open>
  The loop of \<open>extractAnswers\<close>: \<open>optionRegex.lastIndex\<close> is set to 0 and \<open>exec\<close> is called
  until it finds nothing; each match assigns \<open>options[letter] = optionText\<close>. Group 1 is
  one letter whenever the pattern matches.
\<close>

function optionLoop :: "char option \<Rightarrow> string \<Rightarrow> string obj \<Rightarrow> string obj" where
  "optionLoop p s opts =
     (case search optionRegex 0 p s of
        None \<Rightarrow> opts
      | Some m \<Rightarrow>
          (case group 1 m of
             [] \<Rightarrow> optionLoop (m_prev m) (m_rest m) opts
           | letter # _ \<Rightarrow>
               optionLoop (m_prev m) (m_rest m)
                 (obj_set opts letter (cleanOptionText (trim (group 2 m))))))"
  by pat_completeness auto
termination
proof (relation "measure (\<lambda>(p, s, opts). length s)")
  fix p s m and opts :: "string obj"
  assume "search optionRegex 0 p s = Some m"
  from search_consumes [OF this]
  have "length (m_rest m) < length s" by (simp add: optionRegex_def)
  then show "((m_prev m, m_rest m, opts), (p, s, opts)) \<in> measure (\<lambda>(p, s, opts). length s)"
    by simp
  fix letter :: char and x :: string
  show "((m_prev m, m_rest m, obj_set opts letter (cleanOptionText (trim (group 2 m)))), (p, s, opts))
        \<in> measure (\<lambda>(p, s, opts). length s)"
    using \<open>length (m_rest m) < length s\<close> by simp
qed simp

declare optionLoop.simps [simp del]

definition extractAnswers :: "string \<Rightarrow> string obj" where
  "extractAnswers questionBlock = optionLoop None questionBlock []"

fun inquireLoop :: "string \<Rightarrow> char list \<Rightarrow> char list" where
  "inquireLoop [] correct = correct"
| "inquireLoop (c # cs) correct =
     inquireLoop cs (if isUpper c \<and> c \<notin> set correct then correct @ [c] else correct)"

definition extractCorrectAnswer :: "string \<Rightarrow> char list" where
  "extractCorrectAnswer questionBlock =
     (let correct1 = (case search correctAnswerRegex 0 None questionBlock of
                        Some m \<Rightarrow> filter isUpper (group 1 m)
                      | None \<Rightarrow> [])
      in case search inquireAnswerRegex 0 None questionBlock of
           Some m \<Rightarrow> inquireLoop (group 1 m) correct1
         | None \<Rightarrow> correct1)"

fun contentLoop :: "string list \<Rightarrow> string \<Rightarrow> string" where
  \<comment> \<open>the loop over the lines, from the third line on\<close>
  "contentLoop [] questionContent = questionContent"
| "contentLoop (line # ls) questionContent =
     (if search optionLineRegex 0 None line \<noteq> None then questionContent
      else if str_includes line ''<as-button'' then questionContent
      else contentLoop ls (questionContent @ line @ [CHR 0x0A]))"

definition extractQuestionContent :: "string \<Rightarrow> string" where
  "extractQuestionContent questionBlock = trim (contentLoop (drop 2 (split_nl questionBlock)) [])"

definition extractQuestion_try :: "nat \<Rightarrow> string \<Rightarrow> nat \<Rightarrow> extract_error + question" where
  \<comment> \<open>the \<open>try\<close> block of \<open>extractQuestion\<close>\<close>
  "extractQuestion_try now questionBlock idx =
     (case search questionNumberRegex 0 None questionBlock of
        None \<Rightarrow> Inl NoQuestionNumber
      | Some numberMatch \<Rightarrow>
          let questionNumber = group 1 numberMatch;
              questionContent = extractQuestionContent questionBlock
          in if questionContent = [] then Inl NoQuestionContent
             else
               let opts = extractAnswers questionBlock
               in if length opts = 0 then Inl NoOptions
                  else
                    let correct = extractCorrectAnswer questionBlock
                    in if length correct = 0 then Inl NoCorrectAnswers
                       else Inr \<lparr>qid = padStart questionNumber 3 CHR ''0'',
                                  title = ''Pregunta '' @ questionNumber,
                                  content = questionContent,
                                  options = opts,
                                  correctAnswers = correct,
                                  rawBlock = questionBlock,
                                  extractionMetadata =
                                    \<lparr>questionIndex = idx,
                                      blockLength = length questionBlock,
                                      timestamp = now,
                                      optionCount = length opts,
                                      correctAnswerCount = length correct,
                                      contentLength = length questionContent\<rparr>\<rparr>)"

definition extractQuestion ::
  "nat \<Rightarrow> parser \<Rightarrow> string \<Rightarrow> nat \<Rightarrow> (extract_error + question) \<times> parser" where
  \<comment> \<open>the \<open>catch\<close> block logs the error and throws it again\<close>
  "extractQuestion now st questionBlock idx =
     (case extractQuestion_try now questionBlock idx of
        Inl err \<Rightarrow> (Inl err, log_error now (ExtractionError idx err) st)
      | Inr questionData \<Rightarrow> (Inr questionData, st))"

subsection \<open>Validation of one question\<close>

text \<open>
  Each validator either returns \<open>true\<close> or records one error with \<open>addValidationError\<close>
  and returns \<open>false\<close>; its model returns the error it records, if any.
\<close>

definition validateBasicStructure :: "question \<Rightarrow> message option" where
  "validateBasicStructure q =
     (if qid q = [] then Some MissingId
      else if title q = [] then Some MissingTitle
      else if content q = [] then Some MissingContent
      else None)"

definition validateQuestionContent :: "question \<Rightarrow> message option" where
  "validateQuestionContent q =
     (if length (content q) < minContentLength then Some (ContentTooShort (length (content q)))
      else if length (content q) > maxContentLength then Some (ContentTooLong (length (content q)))
      else if length (trim (content q)) = 0 then Some ContentBlank
      else None)"

definition validateSingleOption :: "char \<Rightarrow> string \<Rightarrow> message option" where
  "validateSingleOption letter text0 =
     (if \<not> isUpper letter then Some (BadOptionLetter letter)
      else if text0 = [] then Some (OptionTextMissing letter)
      else if length (trim text0) = 0 then Some (OptionTextBlank letter)
      else if length text0 > maxOptionTextLength then Some (OptionTextTooLong letter (length text0))
      else None)"

fun firstOptionError :: "string obj \<Rightarrow> message option" where
  "firstOptionError [] = None"
| "firstOptionError ((letter, text0) # rest) =
     (case validateSingleOption letter text0 of
        Some msg \<Rightarrow> Some msg
      | None \<Rightarrow> firstOptionError rest)"

definition validateQuestionOptions :: "question \<Rightarrow> message option" where
  "validateQuestionOptions q =
     (if length (options q) < minOptions then Some (TooFewOptions (length (options q)))
      else if length (options q) > maxOptions then Some (TooManyOptions (length (options q)))
      else
        (case find (\<lambda>requiredOption. \<not> truthy (obj_get (options q) requiredOption))
                requiredOptionLetters of
           Some requiredOption \<Rightarrow> Some (RequiredOptionMissing requiredOption)
         | None \<Rightarrow> firstOptionError (options q)))"

definition validateCorrectAnswers :: "question \<Rightarrow> message option" where
  "validateCorrectAnswers q =
     (if length (correctAnswers q) = 0 then Some NoCorrectAnswersDefined
      else
        (case find (\<lambda>answer. \<not> isUpper answer) (correctAnswers q) of
           Some answer \<Rightarrow> Some (BadCorrectAnswer answer)
         | None \<Rightarrow>
             if length (remdups (correctAnswers q)) \<noteq> length (correctAnswers q)
             then Some DuplicateCorrectAnswers
             else None))"

definition validateAnswerConsistency :: "question \<Rightarrow> message option" where
  "validateAnswerConsistency q =
     (case find (\<lambda>answer. \<not> truthy (obj_get (options q) answer)) (correctAnswers q) of
        Some answer \<Rightarrow> Some (CorrectAnswerNotAnOption answer)
      | None \<Rightarrow> None)"

definition validateQuestion :: "nat \<Rightarrow> parser \<Rightarrow> question \<Rightarrow> nat \<Rightarrow> bool \<times> parser" where
  \<comment> \<open>the five validators all run; \<open>validationErrors\<close> is emptied first\<close>
  "validateQuestion now st q idx =
     (let errors = List.map_filter (\<lambda>r. r)
                     [validateBasicStructure q, validateQuestionContent q,
                      validateQuestionOptions q, validateCorrectAnswers q,
                      validateAnswerConsistency q];
          st1 = st\<lparr>validationErrors := map (\<lambda>msg. (now, msg)) errors\<rparr>
      in if errors = [] then (True, st1)
         else (False, log_warn now (ValidationFailed idx) st1))"

subsection \<open>The whole document\<close>

definition resetParsingState :: "parser \<Rightarrow> parser" where
  "resetParsingState st =
     st\<lparr>validationErrors := [], parsingWarnings := [], processedQuestions := 0,
        skippedQuestions := 0\<rparr>"

text \<open>
  \<open>questionBlockRegex.test(content)\<close> starts at \<open>lastIndex\<close>, since the pattern is global,
  and leaves \<open>lastIndex\<close> at the end of the match it finds, or at 0 when it finds none.
\<close>

definition validateMarkdownContent :: "nat \<Rightarrow> parser \<Rightarrow> string \<Rightarrow> bool \<times> parser" where
  "validateMarkdownContent now st content0 =
     (if content0 = [] then (False, log_error now MarkdownContentNull st)
      else if length (trim content0) = 0 then (False, log_error now MarkdownContentEmpty st)
      else if blockLastIndex st > length content0 then
        (False, log_error now NoQuestionBlocks (st\<lparr>blockLastIndex := 0\<rparr>))
      else
        (case search questionBlockRegex 0
                (if blockLastIndex st = 0 then None else Some (content0 ! (blockLastIndex st - 1)))
                (drop (blockLastIndex st) content0) of
           None \<Rightarrow> (False, log_error now NoQuestionBlocks (st\<lparr>blockLastIndex := 0\<rparr>))
         | Some m \<Rightarrow>
             (True, st\<lparr>blockLastIndex := blockLastIndex st + m_index m + length (m_text m)\<rparr>)))"

definition processBlock ::
  "nat \<Rightarrow> parser \<Rightarrow> nat \<Rightarrow> question list \<Rightarrow> string \<Rightarrow> parser \<times> question list" where
  \<comment> \<open>the body of the loop of \<open>parseQuestions\<close>: its \<open>try\<close> and its \<open>catch\<close>\<close>
  "processBlock now st idx questions fullBlock =
     (case extractQuestion now st fullBlock idx of
        (Inl err, st1) \<Rightarrow>
          (log_error now (ProcessingError idx err)
             (st1\<lparr>skippedQuestions := skippedQuestions st1 + 1\<rparr>), questions)
      | (Inr questionData, st1) \<Rightarrow>
          (case validateQuestion now st1 questionData idx of
             (True, st2) \<Rightarrow>
               (st2\<lparr>processedQuestions := processedQuestions st2 + 1\<rparr>, questions @ [questionData])
           | (False, st2) \<Rightarrow>
               (log_warn now (QuestionOmitted idx (validationErrors st2))
                  (st2\<lparr>skippedQuestions := skippedQuestions st2 + 1\<rparr>), questions)))"

text \<open>
  The loop of \<open>parseQuestions\<close>. The cursor \<open>(p, s)\<close> is the document from
  \<open>questionBlockRegex.lastIndex\<close> on; \<open>clk i\<close> is the clock while block \<open>i\<close> is processed.
\<close>

function parseLoop ::
  "(nat \<Rightarrow> nat) \<Rightarrow> parser \<Rightarrow> nat \<Rightarrow> question list \<Rightarrow> char option \<Rightarrow> string
     \<Rightarrow> parser \<times> nat \<times> question list" where
  "parseLoop clk st questionIdx questions p s =
     (case search questionBlockRegex 0 p s of
        None \<Rightarrow> (st, questionIdx, questions)
      | Some m \<Rightarrow>
          (case processBlock (clk (questionIdx + 1)) st (questionIdx + 1) questions (m_text m) of
             (st', questions') \<Rightarrow>
               parseLoop clk st' (questionIdx + 1) questions' (m_prev m) (m_rest m)))"
  by pat_completeness auto
termination
proof (relation "measure (\<lambda>(clk, st, i, qs, p, s). length s)")
  fix clk :: "nat \<Rightarrow> nat" and st st' :: parser and i :: nat and qs qs' :: "question list"
    and p s m
  assume "search questionBlockRegex 0 p s = Some m"
  from search_consumes [OF this]
  show "((clk, st', i + 1, qs', m_prev m, m_rest m), (clk, st, i, qs, p, s))
        \<in> measure (\<lambda>(clk, st, i, qs, p, s). length s)"
    by (simp add: questionBlockRegex_def)
qed simp

declare parseLoop.simps [simp del]

definition logParsingResults :: "nat \<Rightarrow> parser \<Rightarrow> nat \<Rightarrow> nat \<Rightarrow> parser" where
  "logParsingResults now st validQuestions totalBlocks =
     (let st1 = (if skippedQuestions st > 0
                 then log_warn now (QuestionsSkipped (skippedQuestions st)) st else st)
      in if validQuestions = 0 then log_error now NoValidQuestionsProcessed st1 else st1)"

definition parseQuestions ::
  "(nat \<Rightarrow> nat) \<Rightarrow> parser \<Rightarrow> string \<Rightarrow> (parse_error + question list) \<times> parser" where
  "parseQuestions clk st0 markdownContent =
     (case validateMarkdownContent (clk 0) (resetParsingState st0) markdownContent of
        (False, st1) \<Rightarrow> (Inl InvalidMarkdownContent, st1)
      | (True, st1) \<Rightarrow>
          (case parseLoop clk (st1\<lparr>blockLastIndex := 0\<rparr>) 0 [] None markdownContent of
             (st2, questionIdx, questions) \<Rightarrow>
               let st3 = logParsingResults (clk (questionIdx + 1)) st2 (length questions) questionIdx
               in if length questions = 0 then (Inl NoValidQuestionsFound, st3)
                  else (Inr questions, st3)))"

section \<open>FileHandler: the checks on a loaded document\<close>

text \<open>
  \<open>loadMarkdownFile\<close> fetches the file and passes its text to \<open>validateFileContent\<close>; the
  application gives a document to \<open>parseQuestions\<close> only after that. The transport (the
  fetch and its retries) is outside the model: the text it delivers is the argument. The
  warnings and log entries the FileHandler keeps in lists of its own are left out; the
  errors it throws are all here. \<open>validateContentQuality\<close>, the last step, only records
  warnings.
\<close>

datatype file_error =
    ContentNotText
  | FileEmpty
  | ContentShort nat
  | ContentLong nat
  | NoSectionHeaders
  | NoContentBesideHeaders
  | NoQuestionsInFormat
  | NoAnswerButtons
  | NoAnswerOptions

definition minFileSize :: nat where "minFileSize = 100"
definition maxFileSize :: nat where "maxFileSize = 10 * 1024 * 1024"

definition questionHeaderPattern :: "atom list" where
  \<comment> \<open>the first of \<open>requiredPatterns\<close>; it has the \<open>i\<close> flag\<close>
  "questionHeaderPattern =
     [Lit ''##'', Cls Space, Many Space, LitCI ''Pregunta'', Cls Space, Many Space,
      Cls Digit, Many Digit]"

definition answerButtonPattern :: "atom list" where
  \<comment> \<open>the second of \<open>requiredPatterns\<close>; it has the \<open>i\<close> flag\<close>
  "answerButtonPattern =
     [LitCI ''<as-button'', Many (IsNot CHR ''>''), LitCI (''message='' @ [DQ]),
      Many (IsNot DQ), Lit [DQ], Many (IsNot CHR ''>''), Lit ''>'']"

definition answerOptionPattern :: "atom list" where
  \<comment> \<open>the third of \<open>requiredPatterns\<close>; it has the \<open>m\<close> flag\<close>
  "answerOptionPattern =
     [Bol True, Many Space, Opt ''*'', Opt ''*'', Cls (Between CHR ''A'' CHR ''D''),
      Opt ''*'', Opt ''*'', Lit ''.'', Cls Space, Many Space, Cls Dot, Many Dot, Eol True]"

definition found :: "atom list \<Rightarrow> string \<Rightarrow> bool" where
  \<comment> \<open>\<open>!!content.match(pattern)\<close>\<close>
  "found pattern content0 = (search pattern 0 None content0 \<noteq> None)"

definition validateBasicContent :: "string \<Rightarrow> file_error + unit" where
  "validateBasicContent content0 =
     (if content0 = [] then Inl ContentNotText
      else if length (trim content0) = 0 then Inl FileEmpty
      else if length (trim content0) < minFileSize then Inl (ContentShort (length (trim content0)))
      else if length content0 > maxFileSize then Inl (ContentLong (length content0))
      else Inr ())"

definition validateContentStructure :: "string \<Rightarrow> file_error + unit" where
  "validateContentStructure content0 =
     (let lines = split_nl content0;
          hasHeaders = list_ex (\<lambda>line. startsWith (trim line) ''##'') lines;
          hasContent = list_ex (\<lambda>line. length (trim line) > 0 \<and> \<not> startsWith (trim line) ''#'')
                         lines
      in if \<not> hasHeaders then Inl NoSectionHeaders
         else if \<not> hasContent then Inl NoContentBesideHeaders
         else Inr ())"

definition validateRequiredPatterns :: "string \<Rightarrow> file_error + unit" where
  "validateRequiredPatterns content0 =
     (if \<not> found questionHeaderPattern content0 then Inl NoQuestionsInFormat
      else if \<not> found answerButtonPattern content0 then Inl NoAnswerButtons
      else if \<not> found answerOptionPattern content0 then Inl NoAnswerOptions
      else Inr ())"

definition validateFileContent :: "string \<Rightarrow> file_error + unit" where
  "validateFileContent content0 =
     (case validateBasicContent content0 of
        Inl err \<Rightarrow> Inl err
      | Inr _ \<Rightarrow>
          (case validateContentStructure content0 of
             Inl err \<Rightarrow> Inl err
           | Inr _ \<Rightarrow> validateRequiredPatterns content0))"

text \<open>
  The two steps by which the application parses a document, in \<open>loadQuestions\<close> and in
  both branches of its recovery: \<open>loadMarkdownFile\<close>, which throws what
  \<open>validateFileContent\<close> throws, and then \<open>parseQuestions\<close> on the text it returned.
\<close>

datatype load_error = FileInvalid file_error | ParseFailed parse_error

definition loadAndParse ::
  "(nat \<Rightarrow> nat) \<Rightarrow> parser \<Rightarrow> string \<Rightarrow> (load_error + question list) \<times> parser" where
  "loadAndParse clk st content0 =
     (case validateFileContent content0 of
        Inl err \<Rightarrow> (Inl (FileInvalid err), st)
      | Inr _ \<Rightarrow>
          (case parseQuestions clk st content0 of
             (Inl err, st') \<Rightarrow> (Inl (ParseFailed err), st')
           | (Inr questions, st') \<Rightarrow> (Inr questions, st')))"

text \<open>The letter and the cleaned text of every match the loop of \<open>extractAnswers\<close> visits, in
  the order of the document.\<close>

function optionMatches :: "char option \<Rightarrow> string \<Rightarrow> (char \<times> string) list" where
  "optionMatches p s =
     (case search optionRegex 0 p s of
        None \<Rightarrow> []
      | Some m \<Rightarrow>
          (case group 1 m of
             [] \<Rightarrow> optionMatches (m_prev m) (m_rest m)
           | letter # _ \<Rightarrow>
               (letter, cleanOptionText (trim (group 2 m))) # optionMatches (m_prev m) (m_rest m)))"
  by pat_completeness auto
termination
proof (relation "measure (\<lambda>(p, s). length s)")
  fix p s m
  assume "search optionRegex 0 p s = Some m"
  from search_consumes [OF this]
  show "((m_prev m, m_rest m), (p, s)) \<in> measure (\<lambda>(p, s). length s)"
    by (simp add: optionRegex_def)
  then show "((m_prev m, m_rest m), (p, s)) \<in> measure (\<lambda>(p, s). length s)" .
qed simp

declare optionMatches.simps [simp del]

definition first_seen :: "'a list \<Rightarrow> 'a list" where
  \<comment> \<open>the elements of a list in the order of their first appearance\<close>
  "first_seen xs = rev (remdups (rev xs))"

definition example_block :: string where
  "example_block = ''A. x\<newline>B. y\<newline>A. z''"


text \<open>The blocks the loop of \<open>parseQuestions\<close> visits: \<open>match[0]\<close> of every match of
  \<open>questionBlockRegex\<close>, in the order of the document.\<close>

function questionBlocks :: "char option \<Rightarrow> string \<Rightarrow> string list" where
  "questionBlocks p s =
     (case search questionBlockRegex 0 p s of
        None \<Rightarrow> []
      | Some m \<Rightarrow> m_text m # questionBlocks (m_prev m) (m_rest m))"
  by pat_completeness auto
termination
proof (relation "measure (\<lambda>(p, s). length s)")
  fix p s m
  assume "search questionBlockRegex 0 p s = Some m"
  from search_consumes [OF this]
  show "((m_prev m, m_rest m), (p, s)) \<in> measure (\<lambda>(p, s). length s)"
    by (simp add: questionBlockRegex_def)
qed simp

declare questionBlocks.simps [simp del]



definition doc_two :: string where
  \<comment> \<open>a well-formed block followed by a block without options\<close>
  "doc_two = ''## Pregunta 7\<newline>\<newline>Which one is it?\<newline>\<newline>**A**. yes\<newline>B. no\<newline>\<newline><as-button label=''
      @ [DQ] @ ''T'' @ [DQ] @ '' message='' @ [DQ] @ ''A'' @ [DQ]
      @ ''></as-button>\<newline>\<newline>## Pregunta 8\<newline>\<newline>Nothing here at all\<newline>''"






subsection \<open>What becomes of each block\<close>


datatype fate =
    Accepted question
  | ExtractionRejected extract_error
  | ValidationRejected "message list"





fun warningsOf :: "(nat \<Rightarrow> nat) \<Rightarrow> (nat \<times> fate) list \<Rightarrow> (nat \<times> message) list" where
  "warningsOf clk [] = []"
| "warningsOf clk ((idx, Accepted q) # rest) = warningsOf clk rest"
| "warningsOf clk ((idx, ExtractionRejected err) # rest) = warningsOf clk rest"
| "warningsOf clk ((idx, ValidationRejected errors) # rest) =
     [(clk idx, ValidationFailed idx),
      (clk idx, QuestionOmitted idx (map (\<lambda>msg. (clk idx, msg)) errors))]
     @ warningsOf clk rest"




text \<open>A question record, a result and a report with the clock readings taken out.\<close>

definition untimed_question :: "question \<Rightarrow> question" where
  "untimed_question q = q\<lparr>extractionMetadata := (extractionMetadata q)\<lparr>timestamp := 0\<rparr>\<rparr>"

definition untimed_result :: "parse_error + question list \<Rightarrow> parse_error + question list" where
  "untimed_result r = map_sum id (map untimed_question) r"

definition untimed_message :: "message \<Rightarrow> message" where
  \<comment> \<open>a warning with the clock readings inside it taken out\<close>
  "untimed_message msg =
     (case msg of
        QuestionOmitted idx errors \<Rightarrow> QuestionOmitted idx (map (\<lambda>entry. (0, snd entry)) errors)
      | _ \<Rightarrow> msg)"

definition untimed_report :: "parser \<Rightarrow> message list \<times> message list \<times> nat \<times> nat" where
  "untimed_report st =
     (map snd (validationErrors st), map (\<lambda>entry. untimed_message (snd entry)) (parsingWarnings st),
      processedQuestions st, skippedQuestions st)"

text \<open>Two runs of one parser on the same document, the second a hundred ticks later.\<close>

definition agree :: "parser \<Rightarrow> parser \<Rightarrow> bool" where
  \<comment> \<open>the same logging switch and the same report, clock readings aside\<close>
  "agree st st' =
     (enableDetailedLogging st = enableDetailedLogging st' \<and> untimed_report st = untimed_report st')"

definition quiet_run :: "(parse_error + question list) \<times> parser" where
  \<comment> \<open>a run with the detailed log switched off, as the application's recovery does\<close>
  "quiet_run =
     parseQuestions (\<lambda>i. 100 + i) (MarkdownParser\<lparr>enableDetailedLogging := False\<rparr>) doc_two"

definition first_run :: "(parse_error + question list) \<times> parser" where
  "first_run = parseQuestions (\<lambda>i. 100 + i) MarkdownParser doc_two"

definition second_run :: "(parse_error + question list) \<times> parser" where
  "second_run = parseQuestions (\<lambda>i. 200 + i) (snd first_run) doc_two"


section \<open>A pool of one multi-answer question\<close>

text \<open>
  The record the parser builds for a question whose button carries \<open>message="CB"\<close>: the
  letters are kept in the order they are written. Every address of the example store
  holds this record.
\<close>

definition example_question :: question where
  "example_question = \<lparr>qid = ''002'', title = ''Pregunta 002'', content = ''Which two are right?'',
     options = [(CHR ''A'', ''first''), (CHR ''B'', ''second''), (CHR ''C'', ''third''), (CHR ''D'', ''fourth'')],
     correctAnswers = ''CB'', rawBlock = [],
     extractionMetadata = \<lparr>questionIndex = 1, blockLength = 0, timestamp = 0, optionCount = 4,
       correctAnswerCount = 2, contentLength = 20\<rparr>\<rparr>"

definition example_store :: store where
  "example_store = (\<lambda>a. example_question)"

text \<open>
  Two sessions over this pool, as the constructor builds them: one asked for one question,
  one asked for none.
\<close>

definition example_engine :: engine where
  "example_engine = \<lparr>allQuestions = [0], numberOfQuestions = 1, selectedQuestions = [0],
      currentIndex = 0, userAnswers = [None], startTime = None, endTime = None,
      isCompleted = False, engineErrors = [], validationWarnings = [],
      enableDetailedLogging_engine = True\<rparr>"

definition empty_engine :: engine where
  "empty_engine = \<lparr>allQuestions = [0], numberOfQuestions = 0, selectedQuestions = [],
      currentIndex = 0, userAnswers = [], startTime = None, endTime = None,
      isCompleted = False, engineErrors = [], validationWarnings = [],
      enableDetailedLogging_engine = True\<rparr>"

text \<open>
  The first session answered twice at the same index: \<open>A\<close>, then \<open>CB\<close>.
\<close>

definition example_first :: "(engine_error + outcome) \<times> store \<times> engine" where
  "example_first = submitAnswer 7 example_store example_engine ''A''"

definition example_second :: "(engine_error + outcome) \<times> store \<times> engine" where
  "example_second = submitAnswer 8 (fst (snd example_first)) (snd (snd example_first)) ''CB''"

text \<open>
  The same two answers in the other order: \<open>CB\<close>, then \<open>A\<close>.
\<close>

definition example_third :: "(engine_error + outcome) \<times> store \<times> engine" where
  "example_third = submitAnswer 7 example_store example_engine ''CB''"

definition example_fourth :: "(engine_error + outcome) \<times> store \<times> engine" where
  "example_fourth = submitAnswer 8 (fst (snd example_third)) (snd (snd example_third)) ''A''"

section \<open>What the score is to count\<close>

text \<open>
  The comparison and the count written out without the store and without the loop, to set
  beside \<open>isAnswerCorrect\<close> and \<open>calculateScore\<close>. An answer of several letters matches a
  question when its letters, sorted, are the question's correct answers, sorted; an answer
  of one letter when the letter is among the correct answers. The count over an array of
  stored answers is the number of indices of the session that hold a non-empty answer
  matching their question.
\<close>

definition answerMatches :: "question \<Rightarrow> string \<Rightarrow> bool" where
  "answerMatches q a =
     (if length a > 1 then sort a = sort (correctAnswers q)
      else (case a of [letter] \<Rightarrow> letter \<in> set (correctAnswers q) | _ \<Rightarrow> False))"

definition storedAnswerCorrect :: "store \<Rightarrow> engine \<Rightarrow> string option list \<Rightarrow> nat \<Rightarrow> bool" where
  "storedAnswerCorrect h e answers i =
     (case array_get answers i of
        None \<Rightarrow> False
      | Some a \<Rightarrow> a \<noteq> [] \<and> answerMatches (h (selectedQuestions e ! i)) a)"

definition correctStored :: "store \<Rightarrow> engine \<Rightarrow> string option list \<Rightarrow> nat" where
  "correctStored h e answers =
     length (filter (storedAnswerCorrect h e answers) [0 ..< length (selectedQuestions e)])"

section \<open>The error kinds of the specification\<close>

text \<open>
  The specification names kinds of failure; the engine throws \<open>Error\<close> objects that differ
  in their message. \<open>kind\<close> files each thrown error under the kind it belongs to, and
  \<open>spec_submitAnswer\<close> is the decision chain the specification gives for
  \<open>submitAnswer\<close>, in its words: completed, then malformed, then unknown option, then
  success.
\<close>

datatype error_kind = EmptyPool | InvalidState | MalformedAnswer | UnknownOption

fun kind :: "engine_error \<Rightarrow> error_kind" where
  "kind NoQuestionsAvailable = EmptyPool"
| "kind NoValidQuestionsLeft = EmptyPool"
| "kind QuizNotInitialized = InvalidState"
| "kind QuizAlreadyCompleted = InvalidState"
| "kind (QuestionIndexOutOfRange i n) = InvalidState"
| "kind AnswerNotAString = MalformedAnswer"
| "kind EmptyAnswer = MalformedAnswer"
| "kind (AnswerTooLong n) = MalformedAnswer"
| "kind (AnswerBadFormat a) = MalformedAnswer"
| "kind (AnswerNotAnOption l) = UnknownOption"

datatype verdict = Fails error_kind | Succeeds

definition outcome_kind :: "engine_error + outcome \<Rightarrow> verdict" where
  "outcome_kind r = (case r of Inl err \<Rightarrow> Fails (kind err) | Inr _ \<Rightarrow> Succeeds)"

definition spec_submitAnswer :: "store \<Rightarrow> engine \<Rightarrow> string \<Rightarrow> verdict" where
  "spec_submitAnswer h e letters =
     (if isCompleted e then Fails InvalidState
      else if letters = [] \<or> length letters > 10 \<or> list_ex (\<lambda>c. \<not> isUpper c) letters
        then Fails MalformedAnswer
      else if list_ex (\<lambda>l. l \<notin> set (map fst (options (h (selectedQuestions e ! currentIndex e)))))
                letters
        then Fails UnknownOption
      else Succeeds)"

section \<open>The records the parser accepts\<close>

text \<open>
  A record that \<open>validateQuestion\<close> accepts passes the structure test of the engine's
  constructor, and none of its option texts is empty.
\<close>

lemma firstOptionError_None:
  "firstOptionError opts = None \<Longrightarrow> list_all (\<lambda>kv. snd kv \<noteq> []) opts"
  by (induction opts) (auto simp: validateSingleOption_def split: option.splits if_splits)

lemma validateQuestion_accepts:
  assumes "fst (validateQuestion now st q i)"
  shows "validateQuestionStructure q" and "list_all (\<lambda>kv. snd kv \<noteq> []) (options q)"
proof -
  have e: "validateBasicStructure q = None" "validateQuestionContent q = None"
    "validateQuestionOptions q = None" "validateCorrectAnswers q = None"
    using assms
    by (auto simp: validateQuestion_def Let_def List.map_filter_simps split: if_splits option.splits)
  have "firstOptionError (options q) = None" "\<not> length (options q) < 2"
    using e(3) by (auto simp: validateQuestionOptions_def minOptions_def split: if_splits option.splits)
  then show "list_all (\<lambda>kv. snd kv \<noteq> []) (options q)" "validateQuestionStructure q"
    using e(1,4) firstOptionError_None
    by (auto simp: validateQuestionStructure_def validateBasicStructure_def
        validateCorrectAnswers_def split: if_splits)
qed

section \<open>Construction: the size of the drawn subset\<close>

lemma selectLoop_length:
  "length (selectLoop rnd n i av sel) = length sel + min (nat (n - int i)) (length av)"
proof (induction rnd n i av sel rule: selectLoop.induct)
  case (1 rnd n i av sel)
  show ?case
  proof (cases "int i < n \<and> length av > 0")
    case True
    then have r: "rnd i mod length av < length av" by simp
    have "length (selectLoop rnd n i av sel) =
          length (selectLoop rnd n (i + 1)
             (take (rnd i mod length av) av @ drop (rnd i mod length av + 1) av)
             (sel @ [av ! (rnd i mod length av)]))"
      using True by (subst selectLoop.simps) (simp add: Let_def)
    also have "\<dots> = length (sel @ [av ! (rnd i mod length av)]) +
        min (nat (n - int (i + 1)))
          (length (take (rnd i mod length av) av @ drop (rnd i mod length av + 1) av))"
      using 1 [OF True refl refl] .
    also have "\<dots> = Suc (length sel) + min (nat (n - int i) - 1) (length av - 1)"
    proof -
      have "length (take (rnd i mod length av) av @ drop (rnd i mod length av + 1) av) = length av - 1"
        using r by simp
      moreover have "nat (n - int (i + 1)) = nat (n - int i) - 1" by simp
      ultimately show ?thesis by simp
    qed
    also have "\<dots> = length sel + min (nat (n - int i)) (length av)"
    proof -
      have "0 < nat (n - int i)" "0 < length av" using True by simp_all
      then show ?thesis by linarith
    qed
    finally show ?thesis .
  next
    case False
    then show ?thesis by (subst selectLoop.simps) auto
  qed
qed

lemma validateInitialQuestions_valid:
  assumes "list_all (\<lambda>a. validateQuestionStructure (h a)) (allQuestions e)" "allQuestions e \<noteq> []"
  shows "validateInitialQuestions h now e = Inr e"
proof -
  have "filter (\<lambda>i. \<not> validateQuestionStructure (h (allQuestions e ! i))) [0 ..< length (allQuestions e)] = []"
    using assms(1) by (auto simp: list_all_length filter_empty_conv)
  then show ?thesis using assms(2) by (simp add: validateInitialQuestions_def)
qed

lemma QuizEngine_unfold:
  "QuizEngine h rnd now pool requested =
     (case validateInitialQuestions h now \<lparr>allQuestions = pool,
               numberOfQuestions = min (case requested of None \<Rightarrow> 10 | Some n \<Rightarrow> n) (int (length pool)),
               selectedQuestions = [], currentIndex = 0, userAnswers = [],
               startTime = None, endTime = None, isCompleted = False,
               engineErrors = [], validationWarnings = [],
      enableDetailedLogging_engine = True\<rparr> of
           Inl err \<Rightarrow> Inl err
         | Inr e' \<Rightarrow> Inr (selectRandomQuestions rnd e'))"
  by (simp add: QuizEngine_def Let_def)

lemma QuizEngine_valid_pool:
  assumes "list_all (\<lambda>a. validateQuestionStructure (h a)) pool" "pool \<noteq> []"
  shows "\<exists>e. QuizEngine h rnd now pool requested = Inr e \<and>
           length (selectedQuestions e) =
             min (nat (min (case requested of None \<Rightarrow> 10 | Some n \<Rightarrow> n) (int (length pool))))
               (length pool)"
proof -
  define n where "n = (case requested of None \<Rightarrow> 10 | Some n \<Rightarrow> n)"
  define e0 where "e0 = \<lparr>allQuestions = pool,
               numberOfQuestions = min n (int (length pool)),
               selectedQuestions = [], currentIndex = 0, userAnswers = [],
               startTime = None, endTime = None, isCompleted = False,
               engineErrors = [], validationWarnings = [],
      enableDetailedLogging_engine = True\<rparr>"
  have a: "allQuestions e0 = pool" "numberOfQuestions e0 = min n (int (length pool))"
    by (simp_all add: e0_def)
  have v: "validateInitialQuestions h now e0 = Inr e0"
    by (rule validateInitialQuestions_valid) (simp_all add: a assms)
  have q: "QuizEngine h rnd now pool requested = Inr (selectRandomQuestions rnd e0)"
    unfolding QuizEngine_unfold n_def [symmetric] e0_def [symmetric] by (simp add: v)
  have len: "length (selectedQuestions (selectRandomQuestions rnd e0)) =
      min (nat (min n (int (length pool)))) (length pool)"
    by (simp add: selectRandomQuestions_def Let_def selectLoop_length a)
  show ?thesis unfolding n_def [symmetric] using q len by blast
qed

text \<open>
  Claim C2, as the code has it. The pool holds well-formed question records (each passes
  \<open>validateQuestionStructure\<close>, as every record the parser accepts does). Construction
  fails with "no questions available" exactly when the pool is empty. On a non-empty pool
  it succeeds, and the requested count is clamped from above only:
  the subset has \<open>min requested |pool|\<close> questions when that number is not negative and none
  otherwise; it has at least one question whenever at least one was requested.
\<close>

theorem QuizEngine_subset_size:
  assumes "list_all (\<lambda>a. validateQuestionStructure (h a)) pool"
  shows "(QuizEngine h rnd now pool requested = Inl NoQuestionsAvailable \<longleftrightarrow> pool = []) \<and>
         (pool \<noteq> [] \<longrightarrow>
            (\<exists>e. QuizEngine h rnd now pool requested = Inr e \<and>
                 int (length (selectedQuestions e)) =
                   max 0 (min (case requested of None \<Rightarrow> 10 | Some n \<Rightarrow> n) (int (length pool))) \<and>
                 (1 \<le> (case requested of None \<Rightarrow> 10 | Some n \<Rightarrow> n) \<longrightarrow>
                    1 \<le> length (selectedQuestions e))))"
proof (cases "pool = []")
  case True
  then show ?thesis by (simp add: QuizEngine_def validateInitialQuestions_def)
next
  case False
  define n where "n = (case requested of None \<Rightarrow> 10 | Some n \<Rightarrow> n)"
  obtain e where e: "QuizEngine h rnd now pool requested = Inr e"
    "length (selectedQuestions e) = min (nat (min n (int (length pool)))) (length pool)"
    using QuizEngine_valid_pool [OF assms False] unfolding n_def by blast
  have pos: "0 < length pool" using False by simp
  have s1: "int (length (selectedQuestions e)) = max 0 (min n (int (length pool)))"
    using e(2) pos by linarith
  have s2: "1 \<le> n \<longrightarrow> 1 \<le> length (selectedQuestions e)"
    using e(2) pos by linarith
  have "QuizEngine h rnd now pool requested \<noteq> Inl NoQuestionsAvailable"
    using e(1) by simp
  then show ?thesis
    using False e(1) s1 s2 unfolding n_def by simp
qed

theorem QuizEngine_subset_size_witness:
  "list_all (\<lambda>a. validateQuestionStructure (example_store a)) [0, 1, 2] \<and>
   (\<exists>e. QuizEngine example_store (\<lambda>i. i) 0 [0, 1, 2] (Some 5) = Inr e \<and>
        int (length (selectedQuestions e)) = 3 \<and> 1 \<le> length (selectedQuestions e))"
proof -
  have v: "list_all (\<lambda>a. validateQuestionStructure (example_store a)) [0, 1, 2]"
    by (simp add: validateQuestionStructure_def example_store_def example_question_def)
  show ?thesis
    using v QuizEngine_subset_size [OF v, of "\<lambda>i. i" 0 "Some 5"] by simp
qed

text \<open>
  The count is not raised to 1: a request for 0 questions on a pool of one well-formed
  question builds a session with an empty subset.
\<close>

theorem QuizEngine_zero_requested:
  "map_sum id (\<lambda>e. length (selectedQuestions e))
     (QuizEngine example_store (\<lambda>i. 0) 0 [0] (Some 0)) = Inr 0"
  by (simp add: QuizEngine_def validateInitialQuestions_def validateQuestionStructure_def
      example_store_def example_question_def selectRandomQuestions_def Let_def selectLoop.simps)

section \<open>Answers: what \<open>submitAnswer\<close> does\<close>

lemmas engine_eval = submitAnswer_def validateQuizState_def validateAnswerFormat_def
  validateAnswerForQuestion_def isAnswerCorrect_def logError_def array_set_def
  truthy_def obj_get_def obj_get_str_def maxAnswerLength_def isUpper_def Let_def
  example_store_def example_question_def example_engine_def empty_engine_def

lemma example_engine_built:
  "QuizEngine example_store (\<lambda>i. 0) 0 [0] (Some 1) = Inr example_engine"
  by (simp add: QuizEngine_def validateInitialQuestions_def validateQuestionStructure_def
      example_store_def example_question_def selectRandomQuestions_def Let_def selectLoop.simps
      example_engine_def)

lemma empty_engine_built:
  "QuizEngine example_store (\<lambda>i. 0) 0 [0] (Some 0) = Inr empty_engine"
  by (simp add: QuizEngine_def validateInitialQuestions_def validateQuestionStructure_def
      example_store_def example_question_def selectRandomQuestions_def Let_def selectLoop.simps
      empty_engine_def)

text \<open>
  Claim C1. The question's correct answers are C and B. \<open>submitAnswer("CB")\<close> is correct and
  \<open>submitAnswer("BCD")\<close> is not, as exact set equality demands; but \<open>submitAnswer("B")\<close>
  is reported correct too: a one-letter answer takes the \<open>includes\<close> branch of
  \<open>isAnswerCorrect\<close>, which asks only whether the letter is among the correct ones.
\<close>

theorem submitAnswer_one_of_two_letters:
  "correctAnswers (example_store 0) = ''CB'' \<and>
   map_sum id o_isCorrect (fst (submitAnswer 7 example_store example_engine ''CB'')) = Inr True \<and>
   map_sum id o_isCorrect (fst (submitAnswer 7 example_store example_engine ''BCD'')) = Inr False \<and>
   map_sum id o_isCorrect (fst (submitAnswer 7 example_store example_engine ''B'')) = Inr True"
  by (simp add: engine_eval)

text \<open>
  Claim C5. On a session that has not started, a submission that is refused as malformed
  (the empty string) or as an unknown option (\<open>Z\<close>) still stamps \<open>startTime\<close>: the stamp is
  written before the answer is validated.
\<close>

theorem submitAnswer_rejected_stamps_startTime:
  "startTime example_engine = None \<and>
   fst (submitAnswer 7 example_store example_engine '''') = Inl AnswerNotAString \<and>
   startTime (snd (snd (submitAnswer 7 example_store example_engine ''''))) = Some 7 \<and>
   fst (submitAnswer 7 example_store example_engine ''Z'') = Inl (AnswerNotAnOption ''Z'') \<and>
   startTime (snd (snd (submitAnswer 7 example_store example_engine ''Z''))) = Some 7"
  by (simp add: engine_eval)

text \<open>
  Claim C6. The pool record lists its correct answers as C, B. After one
  \<open>submitAnswer("BC")\<close> the same record, read from the store, lists them as B, C:
  \<open>isAnswerCorrect\<close> sorted the record's own array.
\<close>

theorem submitAnswer_sorts_pool_record:
  "correctAnswers (example_store 0) = ''CB'' \<and>
   correctAnswers (fst (snd (submitAnswer 7 example_store example_engine ''BC'')) 0) = ''BC''"
  by (simp add: engine_eval)

lemma validateAnswerFormat_kind:
  "validateAnswerFormat a =
     (if a = [] then Inl AnswerNotAString
      else if length a > 10 then Inl (AnswerTooLong (length a))
      else if list_ex (\<lambda>c. \<not> isUpper c) a then Inl (AnswerBadFormat a)
      else Inr ())"
  by (auto simp: validateAnswerFormat_def maxAnswerLength_def list_all_iff list_ex_iff)

lemma firstInvalidLetter_None:
  "firstInvalidLetter opts a = None \<longleftrightarrow> list_all (\<lambda>l. truthy (obj_get opts l)) a"
  by (induction a) auto

lemma truthy_key:
  assumes "list_all (\<lambda>kv. snd kv \<noteq> []) opts"
  shows "truthy (obj_get opts l) \<longleftrightarrow> l \<in> set (map fst opts)"
proof
  assume "truthy (obj_get opts l)"
  then obtain t where "map_of opts l = Some t"
    by (auto simp: truthy_def obj_get_def split: option.splits)
  then show "l \<in> set (map fst opts)" by (metis map_of_eq_None_iff option.distinct(1) set_map)
next
  assume "l \<in> set (map fst opts)"
  then obtain t where t: "map_of opts l = Some t"
    by (metis map_of_eq_None_iff not_Some_eq set_map)
  then have "(l, t) \<in> set opts" by (rule map_of_SomeD)
  then have "t \<noteq> []" using assms by (auto simp: list_all_iff)
  then show "truthy (obj_get opts l)" using t by (simp add: truthy_def obj_get_def)
qed

lemma validateAnswerForQuestion_kind:
  assumes "list_all (\<lambda>kv. snd kv \<noteq> []) (options q)" "a \<noteq> []"
  shows "(case validateAnswerForQuestion a q of Inl err \<Rightarrow> Fails (kind err) | Inr u \<Rightarrow> Succeeds) =
         (if list_ex (\<lambda>l. l \<notin> set (map fst (options q))) a then Fails UnknownOption else Succeeds)"
proof (cases "length a > 1")
  case True
  have "(firstInvalidLetter (options q) a = None) = (\<not> list_ex (\<lambda>l. l \<notin> set (map fst (options q))) a)"
    using truthy_key [OF assms(1)] by (simp add: firstInvalidLetter_None list_all_iff list_ex_iff)
  then show ?thesis using True
    by (auto simp: validateAnswerForQuestion_def split: option.splits)
next
  case False
  then obtain l where a: "a = [l]" using assms(2) by (cases a) auto
  show ?thesis using truthy_key [OF assms(1), of l]
    by (simp add: validateAnswerForQuestion_def obj_get_str_def a)
qed

text \<open>
  Claim C9, as the code has it. The session's index lies within its questions and the
  current question's option texts are not empty (both hold for every session built from
  parsed records). \<open>submitAnswer\<close> fails with InvalidState when the session holds no
  question; otherwise it follows the chain of the specification: InvalidState when
  completed, else MalformedAnswer when the answer is empty, longer than 10 or has a
  character outside A-Z, else UnknownOption when a letter is no key of the current
  question's options, else success.
\<close>

theorem submitAnswer_outcome:
  assumes "selectedQuestions e \<noteq> [] \<Longrightarrow> currentIndex e < length (selectedQuestions e)"
      and "selectedQuestions e \<noteq> [] \<Longrightarrow>
             list_all (\<lambda>kv. snd kv \<noteq> []) (options (h (selectedQuestions e ! currentIndex e)))"
  shows "outcome_kind (fst (submitAnswer now h e a)) =
           (if selectedQuestions e = [] then Fails InvalidState else spec_submitAnswer h e a)"
proof (cases "selectedQuestions e = []")
  case True
  then show ?thesis
    by (simp add: submitAnswer_def validateQuizState_def outcome_kind_def)
next
  case ne: False
  note idx = assms(1) [OF ne] and texts = assms(2) [OF ne]
  show ?thesis
  proof (cases "isCompleted e")
    case True
    then show ?thesis using ne
      by (simp add: submitAnswer_def validateQuizState_def outcome_kind_def spec_submitAnswer_def)
  next
    case nc: False
    have st: "validateQuizState e = Inr ()" using ne nc by (simp add: validateQuizState_def)
    show ?thesis
    proof (cases "a = [] \<or> length a > 10 \<or> list_ex (\<lambda>c. \<not> isUpper c) a")
      case True
      then have "\<exists>err. validateAnswerFormat a = Inl err \<and> kind err = MalformedAnswer"
        by (auto simp: validateAnswerFormat_kind)
      then obtain err where err: "validateAnswerFormat a = Inl err" "kind err = MalformedAnswer"
        by blast
      show ?thesis using ne nc idx True err
        by (simp add: submitAnswer_def st outcome_kind_def spec_submitAnswer_def Let_def)
    next
      case wf: False
      then have fmt: "validateAnswerFormat a = Inr ()" by (auto simp: validateAnswerFormat_kind)
      have "a \<noteq> []" using wf by simp
      note q = validateAnswerForQuestion_kind [OF texts this]
      show ?thesis
      proof (cases "validateAnswerForQuestion a (h (selectedQuestions e ! currentIndex e))")
        case (Inl err)
        then show ?thesis using ne nc idx wf fmt q
          by (simp add: submitAnswer_def st outcome_kind_def spec_submitAnswer_def Let_def
              split: if_splits)
      next
        case (Inr u)
        then show ?thesis using ne nc idx wf fmt q
          by (simp add: submitAnswer_def st outcome_kind_def spec_submitAnswer_def Let_def
              split: if_splits prod.splits)
      qed
    qed
  qed
qed

theorem submitAnswer_outcome_witness:
  "outcome_kind (fst (submitAnswer 7 example_store example_engine ''AZ'')) = Fails UnknownOption \<and>
   outcome_kind (fst (submitAnswer 7 example_store example_engine ''AB'')) = Succeeds \<and>
   outcome_kind (fst (submitAnswer 7 example_store empty_engine ''AB'')) = Fails InvalidState"
proof -
  have i1: "selectedQuestions example_engine \<noteq> [] \<Longrightarrow>
      currentIndex example_engine < length (selectedQuestions example_engine)"
    by (simp add: example_engine_def)
  have t1: "selectedQuestions example_engine \<noteq> [] \<Longrightarrow> list_all (\<lambda>kv. snd kv \<noteq> [])
      (options (example_store (selectedQuestions example_engine ! currentIndex example_engine)))"
    by (simp add: example_store_def example_question_def)
  have i2: "selectedQuestions empty_engine \<noteq> [] \<Longrightarrow>
      currentIndex empty_engine < length (selectedQuestions empty_engine)"
    by (simp add: empty_engine_def)
  have t2: "selectedQuestions empty_engine \<noteq> [] \<Longrightarrow> list_all (\<lambda>kv. snd kv \<noteq> [])
      (options (example_store (selectedQuestions empty_engine ! currentIndex empty_engine)))"
    by (simp add: example_store_def example_question_def)
  have e1: "selectedQuestions example_engine = [0]" "currentIndex example_engine = 0"
     "\<not> isCompleted example_engine"
    by (simp_all add: example_engine_def)
  have e2: "selectedQuestions empty_engine = []" by (simp add: empty_engine_def)
  show ?thesis
    using submitAnswer_outcome [where e = example_engine and h = example_store and now = 7
            and a = "''AZ''", OF i1 t1]
          submitAnswer_outcome [where e = example_engine and h = example_store and now = 7
            and a = "''AB''", OF i1 t1]
          submitAnswer_outcome [where e = empty_engine and h = example_store and now = 7
            and a = "''AB''", OF i2 t2]
    by (simp add: spec_submitAnswer_def e1 e2 isUpper_def example_store_def example_question_def)
qed
text \<open>
  The chain of the specification alone misses the first test of \<open>validateQuizState\<close>: on
  the session built with a request for 0 questions, the well-formed answer \<open>A\<close> (an option
  of every record in the store) is refused although the session is not completed.
\<close>

theorem submitAnswer_no_questions:
  "\<not> isCompleted empty_engine \<and>
   spec_submitAnswer example_store empty_engine ''A'' = Succeeds \<and>
   fst (submitAnswer 7 example_store empty_engine ''A'') = Inl QuizNotInitialized \<and>
   outcome_kind (fst (submitAnswer 7 example_store empty_engine ''A'')) \<noteq>
     spec_submitAnswer example_store empty_engine ''A''"
  by (simp add: engine_eval spec_submitAnswer_def outcome_kind_def)

section \<open>Answering twice at the same index\<close>

lemma array_set_twice: "array_set (array_set xs i a) i b = array_set xs i b"
  by (cases "i < length xs") (simp_all add: array_set_def list_update_append)

lemma isAnswerCorrect_snd_sorted:
  "sort (correctAnswers (snd (isAnswerCorrect h e i ua) a)) = sort (correctAnswers (h a))"
  by (simp add: isAnswerCorrect_def Let_def sorted_sort_id split: list.splits)

lemma isAnswerCorrect_snd_options:
  "options (snd (isAnswerCorrect h e i ua) a) = options (h a)"
  by (simp add: isAnswerCorrect_def Let_def split: list.splits)

lemma answerMatches_sorted:
  assumes "sort (correctAnswers q') = sort (correctAnswers q)"
  shows "answerMatches q' a = answerMatches q a"
proof -
  have "set (correctAnswers q') = set (correctAnswers q)"
    using assms by (metis set_sort)
  then show ?thesis using assms by (simp add: answerMatches_def split: list.splits)
qed

lemma isAnswerCorrect_fst:
  "fst (isAnswerCorrect h e i a) =
     (i < length (selectedQuestions e) \<and> answerMatches (h (selectedQuestions e ! i)) a)"
proof (cases "length a > 1")
  case True
  have eq: "(length xs = length ys \<and> list_all (\<lambda>i. xs ! i = ys ! i) [0 ..< length xs]) = (xs = ys)"
    for xs ys :: string
    using list_eq_iff_nth_eq [of xs ys] by (auto simp add: list_all_iff)
  show ?thesis
  proof (cases "i < length (selectedQuestions e)")
    case False
    then show ?thesis by (simp add: isAnswerCorrect_def)
  next
    case i: True
    then have "fst (isAnswerCorrect h e i a) =
               (sort a = sort (correctAnswers (h (selectedQuestions e ! i))))"
      using True eq [of "sort a" "sort (correctAnswers (h (selectedQuestions e ! i)))"]
      by (simp add: isAnswerCorrect_def Let_def)
    then show ?thesis using True i by (simp add: answerMatches_def)
  qed
next
  case False
  show ?thesis
  proof (cases a)
    case Nil
    then show ?thesis by (simp add: isAnswerCorrect_def answerMatches_def)
  next
    case (Cons c cs)
    then have "cs = []" using False by simp
    then show ?thesis using Cons
      by (cases "i < length (selectedQuestions e)")
        (simp_all add: isAnswerCorrect_def answerMatches_def Let_def)
  qed
qed

lemma countCorrect_filter:
  assumes "\<And>a. sort (correctAnswers (h' a)) = sort (correctAnswers (h a))"
      and "\<And>i. i \<in> set ixs \<Longrightarrow> i < length (selectedQuestions e)"
  shows "fst (countCorrect h' e ixs c) =
         c + length (filter (storedAnswerCorrect h e (userAnswers e)) ixs)"
  using assms
proof (induction ixs arbitrary: h' c)
  case Nil
  then show ?case by simp
next
  case (Cons i ixs)
  have ih: "fst (countCorrect g e ixs d) =
            d + length (filter (storedAnswerCorrect h e (userAnswers e)) ixs)"
    if "\<And>a. sort (correctAnswers (g a)) = sort (correctAnswers (h a))" for g d
    using Cons.IH [of g d] that Cons.prems(2) by simp
  have i: "i < length (selectedQuestions e)" using Cons.prems(2) by simp
  show ?case
  proof (cases "array_get (userAnswers e) i")
    case None
    then have "\<not> storedAnswerCorrect h e (userAnswers e) i"
      by (simp add: storedAnswerCorrect_def)
    then show ?thesis using None ih [OF Cons.prems(1)] by simp
  next
    case (Some ua)
    show ?thesis
    proof (cases "ua = []")
      case True
      then have "\<not> storedAnswerCorrect h e (userAnswers e) i"
        using Some by (simp add: storedAnswerCorrect_def)
      then show ?thesis using Some True ih [OF Cons.prems(1)] by simp
    next
      case False
      obtain b g where r: "isAnswerCorrect h' e i ua = (b, g)" by (cases "isAnswerCorrect h' e i ua")
      have g: "sort (correctAnswers (g a)) = sort (correctAnswers (h a))" for a
        using isAnswerCorrect_snd_sorted [of h' e i ua a] r Cons.prems(1) [of a] by simp
      have "b = answerMatches (h' (selectedQuestions e ! i)) ua"
        using isAnswerCorrect_fst [of h' e i ua] r i by simp
      then have b: "b = storedAnswerCorrect h e (userAnswers e) i"
        using answerMatches_sorted [OF Cons.prems(1)] Some False
        by (simp add: storedAnswerCorrect_def)
      show ?thesis using Some False r b ih [OF g]
        by (cases b) simp_all
    qed
  qed
qed

lemma calculateScore_counts:
  assumes "\<And>a. sort (correctAnswers (h' a)) = sort (correctAnswers (h a))"
  shows "fst (calculateScore h' e) =
         \<lparr>correctCount = correctStored h e (userAnswers e),
          totalQuestions = length (selectedQuestions e)\<rparr>"
  using countCorrect_filter [where h' = h' and h = h and e = e
      and ixs = "[0 ..< length (selectedQuestions e)]" and c = 0, OF assms]
  by (simp add: calculateScore_def split_beta correctStored_def)

lemma isAnswerCorrect_selected:
  "selectedQuestions e' = selectedQuestions e \<Longrightarrow> isAnswerCorrect h e' i a = isAnswerCorrect h e i a"
  by (simp add: isAnswerCorrect_def)

lemma validateAnswerForQuestion_options:
  "options q' = options q \<Longrightarrow> validateAnswerForQuestion a q' = validateAnswerForQuestion a q"
  by (simp add: validateAnswerForQuestion_def split: list.splits)

lemma submitAnswer_accepts:
  assumes "\<not> isCompleted e" "currentIndex e < length (selectedQuestions e)"
      and "validateAnswerFormat a = Inr ()"
      and "validateAnswerForQuestion a (h (selectedQuestions e ! currentIndex e)) = Inr ()"
  shows "\<exists>r. submitAnswer now h e a =
            (Inr r,
             snd (isAnswerCorrect h e (currentIndex e) a),
             e\<lparr>startTime := (if startTime e = None then Some now else startTime e),
               userAnswers := array_set (userAnswers e) (currentIndex e) a\<rparr>)"
proof -
  have st: "validateQuizState e = Inr ()" using assms(1,2) by (auto simp: validateQuizState_def)
  have sel: "isAnswerCorrect h (x\<lparr>startTime := t, userAnswers := u\<rparr>) i a = isAnswerCorrect h x i a"
       "isAnswerCorrect h (x\<lparr>userAnswers := u\<rparr>) i a = isAnswerCorrect h x i a"
       "isAnswerCorrect h (x\<lparr>startTime := t\<rparr>) i a = isAnswerCorrect h x i a"
    for x u t i
    by (rule isAnswerCorrect_selected, simp)+
  show ?thesis using assms st
    by (cases "startTime e") (simp_all add: submitAnswer_def Let_def sel split_beta)
qed

text \<open>
  Claim C10. In a session that is not completed, two valid answers submitted one after the
  other at the same index both succeed; the index does not move, the slot holds the second
  answer and nothing of the first, and the score counts the questions whose stored answer
  matches, read from the array in which the second answer has taken the place of the first:
  the first answer has no part in it.
\<close>

theorem submitAnswer_overwrites:
  assumes "\<not> isCompleted e" "currentIndex e < length (selectedQuestions e)"
      and "validateAnswerFormat a1 = Inr ()"
      and "validateAnswerForQuestion a1 (h (selectedQuestions e ! currentIndex e)) = Inr ()"
      and "validateAnswerFormat a2 = Inr ()"
      and "validateAnswerForQuestion a2 (h (selectedQuestions e ! currentIndex e)) = Inr ()"
      and "submitAnswer t1 h e a1 = (r1, h1, e1)"
      and "submitAnswer t2 h1 e1 a2 = (r2, h2, e2)"
  shows "(\<exists>o1. r1 = Inr o1) \<and> (\<exists>o2. r2 = Inr o2) \<and>
         currentIndex e2 = currentIndex e \<and>
         selectedQuestions e2 = selectedQuestions e \<and>
         userAnswers e2 = array_set (userAnswers e) (currentIndex e) a2 \<and>
         array_get (userAnswers e2) (currentIndex e) = Some a2 \<and>
         fst (calculateScore h2 e2) =
           \<lparr>correctCount =
              correctStored h e (array_set (userAnswers e) (currentIndex e) a2),
            totalQuestions = length (selectedQuestions e)\<rparr>"
proof -
  obtain o1 where s1: "submitAnswer t1 h e a1 =
            (Inr o1, snd (isAnswerCorrect h e (currentIndex e) a1),
             e\<lparr>startTime := (if startTime e = None then Some t1 else startTime e),
               userAnswers := array_set (userAnswers e) (currentIndex e) a1\<rparr>)"
    using submitAnswer_accepts [where h = h and now = t1, OF assms(1-4)] by blast
  then have r1: "r1 = Inr o1" and h1: "h1 = snd (isAnswerCorrect h e (currentIndex e) a1)"
    and e1: "e1 = e\<lparr>startTime := (if startTime e = None then Some t1 else startTime e),
               userAnswers := array_set (userAnswers e) (currentIndex e) a1\<rparr>"
    using assms(7) by simp_all
  have c1: "\<not> isCompleted e1" "currentIndex e1 < length (selectedQuestions e1)"
    "currentIndex e1 = currentIndex e" "selectedQuestions e1 = selectedQuestions e"
    using assms(1,2) by (simp_all add: e1)
  have q1: "validateAnswerForQuestion a2 (h1 (selectedQuestions e1 ! currentIndex e1)) = Inr ()"
    using assms(6) validateAnswerForQuestion_options [OF isAnswerCorrect_snd_options]
    by (simp add: h1 c1)
  obtain o2 where s2: "submitAnswer t2 h1 e1 a2 =
            (Inr o2, snd (isAnswerCorrect h1 e1 (currentIndex e1) a2),
             e1\<lparr>startTime := (if startTime e1 = None then Some t2 else startTime e1),
               userAnswers := array_set (userAnswers e1) (currentIndex e1) a2\<rparr>)"
    using submitAnswer_accepts [where h = h1 and now = t2, OF c1(1,2) assms(5) q1] by blast
  then have r2: "r2 = Inr o2" and h2: "h2 = snd (isAnswerCorrect h1 e1 (currentIndex e1) a2)"
    and e2: "e2 = e1\<lparr>startTime := (if startTime e1 = None then Some t2 else startTime e1),
               userAnswers := array_set (userAnswers e1) (currentIndex e1) a2\<rparr>"
    using assms(8) by simp_all
  have ua: "userAnswers e2 = array_set (userAnswers e) (currentIndex e) a2"
    by (simp add: e2 e1 array_set_twice)
  have sel: "selectedQuestions e2 = selectedQuestions e"
    by (simp add: e2 e1)
  have get: "array_get (array_set xs i a2) i = Some a2" for xs :: "string option list" and i
    by (simp add: array_set_def array_get_def nth_append)
  have srt: "sort (correctAnswers (h2 a)) = sort (correctAnswers (h a))" for a
    by (simp add: h2 h1 isAnswerCorrect_snd_sorted)
  have "fst (calculateScore h2 e2) =
          \<lparr>correctCount = correctStored h e2 (userAnswers e2),
           totalQuestions = length (selectedQuestions e2)\<rparr>"
    using srt by (rule calculateScore_counts)
  moreover have "storedAnswerCorrect h e2 xs = storedAnswerCorrect h e xs" for xs
    by (rule ext) (simp add: storedAnswerCorrect_def sel cong: option.case_cong)
  then have "correctStored h e2 xs = correctStored h e xs" for xs
    by (simp add: correctStored_def sel)
  ultimately show ?thesis using r1 r2 ua sel get by (simp add: e2 e1)
qed

theorem submitAnswer_overwrites_witness:
  "(\<exists>o2. fst example_second = Inr o2) \<and>
   userAnswers (snd (snd example_second)) = [Some ''CB''] \<and>
   fst (calculateScore (fst (snd example_second)) (snd (snd example_second))) =
     \<lparr>correctCount = 1, totalQuestions = 1\<rparr> \<and>
   (\<exists>o4. fst example_fourth = Inr o4) \<and>
   userAnswers (snd (snd example_fourth)) = [Some ''A''] \<and>
   fst (calculateScore (fst (snd example_fourth)) (snd (snd example_fourth))) =
     \<lparr>correctCount = 0, totalQuestions = 1\<rparr>"
proof -
  have f: "validateAnswerFormat ''A'' = Inr ()" "validateAnswerFormat ''CB'' = Inr ()"
    by (simp_all add: validateAnswerFormat_def maxAnswerLength_def isUpper_def)
  have q: "validateAnswerForQuestion ''A''
             (example_store (selectedQuestions example_engine ! currentIndex example_engine)) = Inr ()"
          "validateAnswerForQuestion ''CB''
             (example_store (selectedQuestions example_engine ! currentIndex example_engine)) = Inr ()"
    by (simp_all add: validateAnswerForQuestion_def truthy_def obj_get_def obj_get_str_def example_store_def
        example_question_def)
  have e: "\<not> isCompleted example_engine"
          "currentIndex example_engine < length (selectedQuestions example_engine)"
    by (simp_all add: example_engine_def)
  have s1: "submitAnswer 7 example_store example_engine ''A'' =
              (fst example_first, fst (snd example_first), snd (snd example_first))"
    by (simp add: example_first_def)
  have s2: "submitAnswer 8 (fst (snd example_first)) (snd (snd example_first)) ''CB'' =
              (fst example_second, fst (snd example_second), snd (snd example_second))"
    by (simp add: example_second_def)
  have s3: "submitAnswer 7 example_store example_engine ''CB'' =
              (fst example_third, fst (snd example_third), snd (snd example_third))"
    by (simp add: example_third_def)
  have s4: "submitAnswer 8 (fst (snd example_third)) (snd (snd example_third)) ''A'' =
              (fst example_fourth, fst (snd example_fourth), snd (snd example_fourth))"
    by (simp add: example_fourth_def)
  have u: "array_set (userAnswers example_engine) (currentIndex example_engine) ''CB'' = [Some ''CB'']"
          "array_set (userAnswers example_engine) (currentIndex example_engine) ''A'' = [Some ''A'']"
    by (simp_all add: array_set_def example_engine_def)
  have c: "correctStored example_store example_engine [Some ''CB''] = 1"
          "correctStored example_store example_engine [Some ''A''] = 0"
    by (simp_all add: correctStored_def storedAnswerCorrect_def answerMatches_def array_get_def
        example_store_def example_question_def example_engine_def)
  have l: "length (selectedQuestions example_engine) = 1"
    by (simp add: example_engine_def)
  show ?thesis
    using submitAnswer_overwrites [OF e f(1) q(1) f(2) q(2) s1 s2]
      submitAnswer_overwrites [OF e f(2) q(2) f(1) q(1) s3 s4] c u l
    by simp
qed

section \<open>Extraction of the options of a block\<close>

lemma obj_set_keys:
  "map fst (obj_set kvs k v) = (if k \<in> set (map fst kvs) then map fst kvs else map fst kvs @ [k])"
  by (induction kvs) (auto simp: rev_image_eqI)

lemma obj_set_map_of: "map_of (obj_set kvs k v) = (map_of kvs)(k \<mapsto> v)"
  by (induction kvs) auto

lemma first_seen_snoc:
  "first_seen (xs @ [k]) = (if k \<in> set xs then first_seen xs else first_seen xs @ [k])"
  by (simp add: first_seen_def)

lemma set_first_seen: "set (first_seen xs) = set xs"
  by (simp add: first_seen_def)

lemma assign_keys:
  "map fst (foldl (\<lambda>opts (l, t). obj_set opts l t) [] kvs) = first_seen (map fst kvs)"
proof (induction kvs rule: rev_induct)
  case Nil
  then show ?case by (simp add: first_seen_def)
next
  case (snoc kv kvs)
  obtain k v where kv: "kv = (k, v)" by (cases kv)
  have "set (map fst (foldl (\<lambda>opts (l, t). obj_set opts l t) [] kvs)) = set (map fst kvs)"
    unfolding snoc.IH by (rule set_first_seen)
  then show ?case
    by (simp add: kv obj_set_keys first_seen_snoc snoc.IH del: set_map)
qed

lemma assign_map_of:
  "map_of (foldl (\<lambda>opts (l, t). obj_set opts l t) [] kvs) = map_of (rev kvs)"
proof (induction kvs rule: rev_induct)
  case Nil
  then show ?case by simp
next
  case (snoc kv kvs)
  obtain k v where kv: "kv = (k, v)" by (cases kv)
  show ?case by (simp add: kv obj_set_map_of snoc.IH)
qed

lemma optionLoop_matches:
  "optionLoop p s opts = foldl (\<lambda>opts (l, t). obj_set opts l t) opts (optionMatches p s)"
proof (induction p s opts rule: optionLoop.induct)
  case (1 p s opts)
  show ?case
  proof (cases "search optionRegex 0 p s")
    case None
    then show ?thesis by (simp add: optionLoop.simps [of p s] optionMatches.simps [of p s])
  next
    case (Some m)
    show ?thesis
    proof (cases "group 1 m")
      case Nil
      then show ?thesis using Some 1(1) [OF Some Nil]
        by (simp add: optionLoop.simps [of p s] optionMatches.simps [of p s])
    next
      case (Cons letter rest)
      then show ?thesis using Some 1(2) [OF Some Cons]
        by (simp add: optionLoop.simps [of p s] optionMatches.simps [of p s])
    qed
  qed
qed

text \<open>
  Claim C4, as the code has it. For every question block, the letters of the extracted
  options are in the order of their first appearance among the option-shaped lines, and the
  text kept for a letter is the text of the last option-shaped line with that letter: each
  match assigns \<open>options[letter]\<close> anew.
\<close>

theorem extractAnswers_last_wins:
  "map fst (extractAnswers questionBlock) = first_seen (map fst (optionMatches None questionBlock)) \<and>
   obj_get (extractAnswers questionBlock) letter = map_of (rev (optionMatches None questionBlock)) letter"
  by (simp add: extractAnswers_def obj_get_def optionLoop_matches assign_keys assign_map_of)

text \<open>
  A block that gives the letter A twice: the text kept for A is the second one, not the
  first.
\<close>

theorem extractAnswers_repeated_letter:
  "optionMatches None example_block = [(CHR ''A'', ''x''), (CHR ''B'', ''y''), (CHR ''A'', ''z'')] \<and>
   extractAnswers example_block = [(CHR ''A'', ''z''), (CHR ''B'', ''y'')] \<and>
   obj_get (extractAnswers example_block) CHR ''A'' \<noteq> Some ''x''"
  by code_simp

section \<open>Parsing a document\<close>

lemma processBlock_counts:
  assumes "processBlock now st i qs b = (st', qs')"
  shows "processedQuestions st' + skippedQuestions st' = processedQuestions st + skippedQuestions st + 1
       \<and> length qs' + processedQuestions st = length qs + processedQuestions st'
       \<and> blockLastIndex st' = blockLastIndex st"
  using assms
  by (auto simp: processBlock_def extractQuestion_def validateQuestion_def log_error_def
      log_warn_def Let_def split: sum.splits if_splits prod.splits bool.splits)

lemma parseLoop_counts:
  "parseLoop clk st i qs p s = (st', i', qs') \<Longrightarrow>
     i' = i + length (questionBlocks p s)
     \<and> processedQuestions st' + skippedQuestions st' =
         processedQuestions st + skippedQuestions st + length (questionBlocks p s)
     \<and> length qs' + processedQuestions st = length qs + processedQuestions st'
     \<and> blockLastIndex st' = blockLastIndex st"
proof (induction clk st i qs p s arbitrary: st' i' qs' rule: parseLoop.induct)
  case (1 clk st i qs p s)
  show ?case
  proof (cases "search questionBlockRegex 0 p s")
    case None
    then show ?thesis using 1(2)
      by (simp add: parseLoop.simps [of clk st i qs p s] questionBlocks.simps [of p s])
  next
    case (Some m)
    obtain st1 qs1 where pb: "processBlock (clk (i + 1)) st (i + 1) qs (m_text m) = (st1, qs1)"
      by (cases "processBlock (clk (i + 1)) st (i + 1) qs (m_text m)")
    have loop: "parseLoop clk st1 (i + 1) qs1 (m_prev m) (m_rest m) = (st', i', qs')"
      using 1(2) Some pb by (simp add: parseLoop.simps [of clk st i qs p s])
    note ih = 1(1) [OF Some pb [symmetric] loop]
    note c = processBlock_counts [OF pb]
    have b: "questionBlocks p s = m_text m # questionBlocks (m_prev m) (m_rest m)"
      using Some by (simp add: questionBlocks.simps [of p s])
    show ?thesis using ih c by (simp add: b)
  qed
qed


lemma logParsingResults_counts:
  "processedQuestions (logParsingResults now st v t) = processedQuestions st"
  "skippedQuestions (logParsingResults now st v t) = skippedQuestions st"
  "blockLastIndex (logParsingResults now st v t) = blockLastIndex st"
  by (simp_all add: logParsingResults_def log_error_def log_warn_def Let_def)







subsection \<open>Blocks that are rejected\<close>




lemma fates_append_warnings:
  "warningsOf (\<lambda>i. now) [(idx, f)] @ warningsOf clk rest = warningsOf clk ((idx, f) # rest)"
  if "clk idx = now"
  using that by (cases f) simp_all









section \<open>Parsing the same document again\<close>

lemma untimed_fields:
  assumes "untimed_question q = untimed_question q'"
  shows "qid q = qid q'" "title q = title q'" "content q = content q'"
        "options q = options q'" "correctAnswers q = correctAnswers q'"
proof -
  have "qid (untimed_question q) = qid (untimed_question q')"
       "title (untimed_question q) = title (untimed_question q')"
       "content (untimed_question q) = content (untimed_question q')"
       "options (untimed_question q) = options (untimed_question q')"
       "correctAnswers (untimed_question q) = correctAnswers (untimed_question q')"
    using assms by simp_all
  then show "qid q = qid q'" "title q = title q'" "content q = content q'"
        "options q = options q'" "correctAnswers q = correctAnswers q'"
    by (simp_all add: untimed_question_def)
qed

lemma extractQuestion_try_untimed:
  "map_sum id untimed_question (extractQuestion_try n b i) =
   map_sum id untimed_question (extractQuestion_try n' b i)"
  by (simp add: extractQuestion_try_def untimed_question_def Let_def split: option.splits)

lemma validators_untimed:
  assumes "untimed_question q = untimed_question q'"
  shows "validateBasicStructure q = validateBasicStructure q'"
        "validateQuestionContent q = validateQuestionContent q'"
        "validateQuestionOptions q = validateQuestionOptions q'"
        "validateCorrectAnswers q = validateCorrectAnswers q'"
        "validateAnswerConsistency q = validateAnswerConsistency q'"
  using untimed_fields [OF assms]
  by (simp_all add: validateBasicStructure_def validateQuestionContent_def
      validateQuestionOptions_def validateCorrectAnswers_def validateAnswerConsistency_def
      cong: option.case_cong)

lemma agree_lastIndex [simp]:
  "agree (st\<lparr>blockLastIndex := k\<rparr>) st' = agree st st'"
  "agree st (st'\<lparr>blockLastIndex := k\<rparr>) = agree st st'"
  by (simp_all add: agree_def untimed_report_def)

lemma log_error_agree: "agree st st' \<Longrightarrow> agree (log_error n msg st) (log_error n' msg st')"
  by (simp add: agree_def untimed_report_def log_error_def)

lemma log_warn_agree:
  "agree st st' \<Longrightarrow> untimed_message msg = untimed_message msg' \<Longrightarrow>
     agree (log_warn n msg st) (log_warn n' msg' st')"
  by (simp add: agree_def untimed_report_def log_warn_def)

lemma errors_agree: "agree st st' \<Longrightarrow> map snd (validationErrors st) = map snd (validationErrors st')"
  by (simp add: agree_def untimed_report_def)

lemma count_agree:
  "agree st st' \<Longrightarrow>
     agree (st\<lparr>skippedQuestions := skippedQuestions st + 1\<rparr>)
           (st'\<lparr>skippedQuestions := skippedQuestions st' + 1\<rparr>)"
  "agree st st' \<Longrightarrow>
     agree (st\<lparr>processedQuestions := processedQuestions st + 1\<rparr>)
           (st'\<lparr>processedQuestions := processedQuestions st' + 1\<rparr>)"
  by (simp_all add: agree_def untimed_report_def)

lemma validateQuestion_untimed:
  assumes "untimed_question q = untimed_question q'"
      and "agree st st'"
  shows "fst (validateQuestion n st q i) = fst (validateQuestion n' st' q' i)"
    and "agree (snd (validateQuestion n st q i)) (snd (validateQuestion n' st' q' i))"
proof -
  define ms where "ms = List.map_filter (\<lambda>r. r)
                     [validateBasicStructure q', validateQuestionContent q',
                      validateQuestionOptions q', validateCorrectAnswers q',
                      validateAnswerConsistency q']"
  have a: "agree (st\<lparr>validationErrors := map (\<lambda>msg. (n, msg)) ms\<rparr>)
                 (st'\<lparr>validationErrors := map (\<lambda>msg. (n', msg)) ms\<rparr>)"
    using assms(2) by (simp add: agree_def untimed_report_def comp_def)
  have v: "validateQuestion n st q i =
             (if ms = [] then (True, st\<lparr>validationErrors := map (\<lambda>msg. (n, msg)) ms\<rparr>)
              else (False, log_warn n (ValidationFailed i)
                             (st\<lparr>validationErrors := map (\<lambda>msg. (n, msg)) ms\<rparr>)))"
    unfolding ms_def validateQuestion_def Let_def validators_untimed [OF assms(1)] ..
  have v': "validateQuestion n' st' q' i =
             (if ms = [] then (True, st'\<lparr>validationErrors := map (\<lambda>msg. (n', msg)) ms\<rparr>)
              else (False, log_warn n' (ValidationFailed i)
                             (st'\<lparr>validationErrors := map (\<lambda>msg. (n', msg)) ms\<rparr>)))"
    unfolding ms_def validateQuestion_def Let_def ..
  show "fst (validateQuestion n st q i) = fst (validateQuestion n' st' q' i)"
    by (simp add: v v')
  show "agree (snd (validateQuestion n st q i)) (snd (validateQuestion n' st' q' i))"
  proof (cases "ms = []")
    case True
    then show ?thesis using a by (simp add: v v')
  next
    case False
    then show ?thesis using log_warn_agree [OF a refl] by (simp add: v v')
  qed
qed

lemma extractQuestion_untimed:
  assumes "agree st st'"
  shows "map_sum id untimed_question (fst (extractQuestion n st b i)) =
         map_sum id untimed_question (fst (extractQuestion n' st' b i))"
    and "agree (snd (extractQuestion n st b i)) (snd (extractQuestion n' st' b i))"
proof -
  note t = extractQuestion_try_untimed [of n b i n']
  show "map_sum id untimed_question (fst (extractQuestion n st b i)) =
         map_sum id untimed_question (fst (extractQuestion n' st' b i))"
    using t by (cases "extractQuestion_try n b i"; cases "extractQuestion_try n' b i")
      (simp_all add: extractQuestion_def)
  show "agree (snd (extractQuestion n st b i)) (snd (extractQuestion n' st' b i))"
    using t assms log_error_agree [OF assms]
    by (cases "extractQuestion_try n b i"; cases "extractQuestion_try n' b i")
      (simp_all add: extractQuestion_def)
qed

lemma processBlock_untimed:
  assumes "agree st st'"
      and "map untimed_question qs = map untimed_question qs'"
  shows "agree (fst (processBlock n st i qs b)) (fst (processBlock n' st' i qs' b))"
    and "map untimed_question (snd (processBlock n st i qs b)) =
         map untimed_question (snd (processBlock n' st' i qs' b))"
proof -
  obtain r1 s1 where e1: "extractQuestion n st b i = (r1, s1)" by (cases "extractQuestion n st b i")
  obtain r2 s2 where e2: "extractQuestion n' st' b i = (r2, s2)" by (cases "extractQuestion n' st' b i")
  have r: "map_sum id untimed_question r1 = map_sum id untimed_question r2"
    and s: "agree s1 s2"
    using extractQuestion_untimed [OF assms(1), of n b i n'] e1 e2 by simp_all
  have "agree (fst (processBlock n st i qs b)) (fst (processBlock n' st' i qs' b)) \<and>
        map untimed_question (snd (processBlock n st i qs b)) =
         map untimed_question (snd (processBlock n' st' i qs' b))"
  proof (cases r1)
    case (Inl err)
    then have "r2 = Inl err" using r by (cases r2) simp_all
    then show ?thesis using Inl assms(2) e1 e2 log_error_agree [OF count_agree(1) [OF s]]
      by (simp add: processBlock_def)
  next
    case (Inr q)
    then obtain q' where q': "r2 = Inr q'" "untimed_question q = untimed_question q'"
      using r by (cases r2) simp_all
    obtain v1 t1 where v1: "validateQuestion n s1 q i = (v1, t1)" by (cases "validateQuestion n s1 q i")
    obtain v2 t2 where v2: "validateQuestion n' s2 q' i = (v2, t2)" by (cases "validateQuestion n' s2 q' i")
    have v: "v1 = v2" and t: "agree t1 t2"
      using validateQuestion_untimed [OF q'(2) s, of n i n'] v1 v2 by simp_all
    have m: "untimed_message (QuestionOmitted i (validationErrors t1)) =
             untimed_message (QuestionOmitted i (validationErrors t2))"
    proof -
      have e: "map (\<lambda>entry. (0::nat, snd entry)) xs = map (Pair 0) (map snd xs)"
        for xs :: "(nat \<times> message) list"
        by simp
      show ?thesis
        by (simp only: untimed_message_def message.case e errors_agree [OF t])
    qed
    show ?thesis using Inr q' e1 e2 v1 v2 v assms(2) count_agree(2) [OF t]
        log_warn_agree [OF count_agree(1) [OF t] m]
      by (cases v2) (simp_all add: processBlock_def)
  qed
  then show "agree (fst (processBlock n st i qs b)) (fst (processBlock n' st' i qs' b))"
    and "map untimed_question (snd (processBlock n st i qs b)) =
         map untimed_question (snd (processBlock n' st' i qs' b))"
    by simp_all
qed

lemma parseLoop_untimed:
  assumes "agree st st'"
      and "map untimed_question qs = map untimed_question qs'"
  shows "agree (fst (parseLoop clk st i qs p s)) (fst (parseLoop clk' st' i qs' p s))
       \<and> fst (snd (parseLoop clk st i qs p s)) = fst (snd (parseLoop clk' st' i qs' p s))
       \<and> map untimed_question (snd (snd (parseLoop clk st i qs p s))) =
           map untimed_question (snd (snd (parseLoop clk' st' i qs' p s)))"
  using assms
proof (induction clk st i qs p s arbitrary: st' qs' rule: parseLoop.induct)
  case (1 clk st i qs p s)
  show ?case
  proof (cases "search questionBlockRegex 0 p s")
    case None
    then show ?thesis using 1(2,3)
      by (simp add: parseLoop.simps [of clk st i qs p s] parseLoop.simps [of clk' st' i qs' p s])
  next
    case (Some m)
    obtain st1 qs1 where pb: "processBlock (clk (i + 1)) st (i + 1) qs (m_text m) = (st1, qs1)"
      by (cases "processBlock (clk (i + 1)) st (i + 1) qs (m_text m)")
    obtain st2 qs2 where pb': "processBlock (clk' (i + 1)) st' (i + 1) qs' (m_text m) = (st2, qs2)"
      by (cases "processBlock (clk' (i + 1)) st' (i + 1) qs' (m_text m)")
    have r: "agree st1 st2"
      and q: "map untimed_question qs1 = map untimed_question qs2"
      using processBlock_untimed [OF 1(2,3), of "clk (i + 1)" "i + 1" "m_text m" "clk' (i + 1)"]
        pb pb' by simp_all
    note ih = 1(1) [OF Some pb [symmetric] r q]
    show ?thesis using ih Some pb pb'
      by (simp add: parseLoop.simps [of clk st i qs p s] parseLoop.simps [of clk' st' i qs' p s])
  qed
qed

lemma validateMarkdownContent_untimed:
  assumes "blockLastIndex st = 0" "blockLastIndex st' = 0"
      and "agree st st'"
  shows "fst (validateMarkdownContent n st doc) = fst (validateMarkdownContent n' st' doc)"
    and "agree (snd (validateMarkdownContent n st doc)) (snd (validateMarkdownContent n' st' doc))"
proof -
  have z: "agree (st\<lparr>blockLastIndex := 0\<rparr>) (st'\<lparr>blockLastIndex := 0\<rparr>)"
    using assms(3) by simp
  show "fst (validateMarkdownContent n st doc) = fst (validateMarkdownContent n' st' doc)"
    using assms(1,2) by (auto simp: validateMarkdownContent_def split: option.splits)
  show "agree (snd (validateMarkdownContent n st doc)) (snd (validateMarkdownContent n' st' doc))"
    using assms log_error_agree [OF assms(3)] log_error_agree [OF z]
    by (auto simp: validateMarkdownContent_def split: option.splits)
qed

lemma validateMarkdownContent_rest:
  assumes "blockLastIndex st = 0" "\<not> fst (validateMarkdownContent n st doc)"
  shows "blockLastIndex (snd (validateMarkdownContent n st doc)) = 0"
  using assms
  by (auto simp: validateMarkdownContent_def log_error_def split: option.splits if_splits)

lemma logParsingResults_untimed:
  assumes "agree st st'"
  shows "agree (logParsingResults n st v t) (logParsingResults n' st' v t)"
proof -
  have k: "skippedQuestions st = skippedQuestions st'"
    using assms by (simp add: agree_def untimed_report_def)
  define a where "a = (if skippedQuestions st > 0
                 then log_warn n (QuestionsSkipped (skippedQuestions st)) st else st)"
  define a' where "a' = (if skippedQuestions st' > 0
                 then log_warn n' (QuestionsSkipped (skippedQuestions st')) st' else st')"
  have aa: "agree a a'"
    using assms log_warn_agree [OF assms refl] k by (simp add: a_def a'_def)
  show ?thesis
    using aa log_error_agree [OF aa]
    by (simp add: logParsingResults_def Let_def a_def [symmetric] a'_def [symmetric])
qed

lemma processBlock_logging:
  "enableDetailedLogging (fst (processBlock now st i qs b)) = enableDetailedLogging st"
  by (auto simp: processBlock_def extractQuestion_def validateQuestion_def log_error_def
      log_warn_def Let_def split: sum.splits if_splits prod.splits bool.splits)

lemma parseLoop_logging:
  "enableDetailedLogging (fst (parseLoop clk st i qs p s)) = enableDetailedLogging st"
proof (induction clk st i qs p s rule: parseLoop.induct)
  case (1 clk st i qs p s)
  show ?case
  proof (cases "search questionBlockRegex 0 p s")
    case None
    then show ?thesis by (simp add: parseLoop.simps [of clk st i qs p s])
  next
    case (Some m)
    obtain st1 qs1 where pb: "processBlock (clk (i + 1)) st (i + 1) qs (m_text m) = (st1, qs1)"
      by (cases "processBlock (clk (i + 1)) st (i + 1) qs (m_text m)")
    have "enableDetailedLogging st1 = enableDetailedLogging st"
      using processBlock_logging [of "clk (i + 1)" st "i + 1" qs "m_text m"] pb by simp
    then show ?thesis using 1 [OF Some pb [symmetric]] Some pb
      by (simp add: parseLoop.simps [of clk st i qs p s])
  qed
qed

lemma parseQuestions_logging:
  "enableDetailedLogging (snd (parseQuestions clk st doc)) = enableDetailedLogging st"
proof -
  have v: "enableDetailedLogging (snd (validateMarkdownContent n a doc)) = enableDetailedLogging a"
    for n a
    by (auto simp: validateMarkdownContent_def log_error_def split: option.splits)
  have l: "enableDetailedLogging (logParsingResults n a x y) = enableDetailedLogging a" for n a x y
    by (simp add: logParsingResults_def log_error_def log_warn_def Let_def)
  obtain ok b where vv: "validateMarkdownContent (clk 0) (resetParsingState st) doc = (ok, b)"
    by (cases "validateMarkdownContent (clk 0) (resetParsingState st) doc")
  have b: "enableDetailedLogging b = enableDetailedLogging st"
    using v [of "clk 0" "resetParsingState st"] vv by (simp add: resetParsingState_def)
  show ?thesis
  proof (cases ok)
    case False
    then show ?thesis using vv b by (simp add: parseQuestions_def)
  next
    case True
    obtain c n qs where lp: "parseLoop clk (b\<lparr>blockLastIndex := 0\<rparr>) 0 [] None doc = (c, n, qs)"
      by (cases "parseLoop clk (b\<lparr>blockLastIndex := 0\<rparr>) 0 [] None doc")
    have "enableDetailedLogging c = enableDetailedLogging st"
      using parseLoop_logging [of clk "b\<lparr>blockLastIndex := 0\<rparr>" 0 "[]" None doc] lp b by simp
    then show ?thesis using True vv lp by (simp add: parseQuestions_def Let_def l)
  qed
qed

text \<open>
  Claim C8, as the code has it. Two runs of \<open>parseQuestions\<close> on the same document, at any
  two clocks and from any two parser states whose block pattern is at rest
  (\<open>lastIndex = 0\<close>) and whose detailed-logging switch is set alike, give the same outcome
  and the same report once the clock readings are taken out: the same error or the same
  records, equal in every field but the \<open>timestamp\<close> of \<open>extractionMetadata\<close>, the same
  messages in the same order, and the same counts. A run leaves the block pattern at rest
  and the switch as it found it, so the next run on the same parser qualifies.
\<close>

theorem parseQuestions_deterministic:
  assumes "blockLastIndex st = 0" and "blockLastIndex st' = 0"
      and "enableDetailedLogging st = enableDetailedLogging st'"
  shows "untimed_result (fst (parseQuestions clk st doc)) =
           untimed_result (fst (parseQuestions clk' st' doc)) \<and>
         untimed_report (snd (parseQuestions clk st doc)) =
           untimed_report (snd (parseQuestions clk' st' doc)) \<and>
         blockLastIndex (snd (parseQuestions clk st doc)) = 0 \<and>
         enableDetailedLogging (snd (parseQuestions clk st doc)) = enableDetailedLogging st"
proof -
  define a where "a = resetParsingState st"
  define a' where "a' = resetParsingState st'"
  have z: "blockLastIndex a = 0" "blockLastIndex a' = 0" "agree a a'"
    using assms by (simp_all add: a_def a'_def resetParsingState_def agree_def untimed_report_def)
  obtain ok b where v: "validateMarkdownContent (clk 0) a doc = (ok, b)"
    by (cases "validateMarkdownContent (clk 0) a doc")
  obtain ok' b' where v': "validateMarkdownContent (clk' 0) a' doc = (ok', b')"
    by (cases "validateMarkdownContent (clk' 0) a' doc")
  note vm = validateMarkdownContent_untimed [OF z, of "clk 0" doc "clk' 0"]
  have ok: "ok' = ok" and rb: "agree b b'"
    using vm v v' by simp_all
  have rep: "agree x y \<Longrightarrow> untimed_report x = untimed_report y" for x y
    by (simp add: agree_def)
  show ?thesis
  proof (cases ok)
    case False
    then show ?thesis
      using v v' ok rep [OF rb] validateMarkdownContent_rest [OF z(1), of "clk 0" doc]
        parseQuestions_logging [of clk st doc]
      by (simp add: parseQuestions_def a_def [symmetric] a'_def [symmetric] untimed_result_def)
  next
    case True
    obtain c n qs where l: "parseLoop clk (b\<lparr>blockLastIndex := 0\<rparr>) 0 [] None doc = (c, n, qs)"
      by (cases "parseLoop clk (b\<lparr>blockLastIndex := 0\<rparr>) 0 [] None doc")
    obtain c' n' qs' where l': "parseLoop clk' (b'\<lparr>blockLastIndex := 0\<rparr>) 0 [] None doc = (c', n', qs')"
      by (cases "parseLoop clk' (b'\<lparr>blockLastIndex := 0\<rparr>) 0 [] None doc")
    have "agree (b\<lparr>blockLastIndex := 0\<rparr>) (b'\<lparr>blockLastIndex := 0\<rparr>)"
      using rb by simp
    from parseLoop_untimed [OF this, of "[]" "[]" clk 0 None doc clk']
    have rc: "agree c c'" and n: "n = n'"
      and q: "map untimed_question qs = map untimed_question qs'"
      using l l' by simp_all
    have len: "length qs = length qs'" using q by (metis length_map)
    have emp: "(qs = []) = (qs' = [])" using len by auto
    have li: "blockLastIndex c = 0" using parseLoop_counts [OF l] by simp
    show ?thesis using True ok v v' l l' n q len emp li
        rep [OF logParsingResults_untimed [OF rc, of "clk (n + 1)" "length qs" n "clk' (n + 1)"]]
        parseQuestions_logging [of clk st doc]
      by (auto simp add: parseQuestions_def a_def [symmetric] a'_def [symmetric] untimed_result_def
          Let_def logParsingResults_counts)
  qed
qed

theorem parseQuestions_deterministic_witness:
  "blockLastIndex MarkdownParser = 0 \<and> blockLastIndex (snd first_run) = 0 \<and>
   enableDetailedLogging MarkdownParser = enableDetailedLogging (snd first_run) \<and>
   untimed_result (fst first_run) = untimed_result (fst second_run) \<and>
   untimed_report (snd first_run) = untimed_report (snd second_run)"
proof -
  have h: "blockLastIndex MarkdownParser = 0" by (simp add: MarkdownParser_def)
  note t1 = parseQuestions_deterministic [OF h h refl, of "\<lambda>i. 100 + i" doc_two "\<lambda>i. 100 + i"]
  have h': "blockLastIndex (snd first_run) = 0"
    and g: "enableDetailedLogging MarkdownParser = enableDetailedLogging (snd first_run)"
    using t1 by (simp_all add: first_run_def)
  show ?thesis
    using h h' g
      parseQuestions_deterministic [OF h h' g, of "\<lambda>i. 100 + i" doc_two "\<lambda>i. 200 + i"]
    by (simp add: first_run_def second_run_def)
qed

text \<open>
  The records themselves are not equal in every field: each carries the reading of the
  clock at its extraction, so a second run a hundred ticks later returns a different pool.
  Nor is the report a function of the text alone: with the detailed log switched off, the
  run on the same document records no message at all.
\<close>

theorem parseQuestions_timestamps_differ:
  "map_sum id (map (\<lambda>q. timestamp (extractionMetadata q))) (fst first_run) = Inr [101] \<and>
   map_sum id (map (\<lambda>q. timestamp (extractionMetadata q))) (fst second_run) = Inr [201] \<and>
   fst first_run \<noteq> fst second_run \<and>
   untimed_report (snd first_run) =
     ([ExtractionError 2 NoOptions, ProcessingError 2 NoOptions], [QuestionsSkipped 1], 1, 1) \<and>
   untimed_report (snd quiet_run) = ([], [], 1, 1)"
proof -
  have a: "map_sum id (map (\<lambda>q. timestamp (extractionMetadata q))) (fst first_run) = Inr [101]"
    by code_simp
  have b: "map_sum id (map (\<lambda>q. timestamp (extractionMetadata q))) (fst second_run) = Inr [201]"
    by code_simp
  have c: "untimed_report (snd first_run) =
             ([ExtractionError 2 NoOptions, ProcessingError 2 NoOptions], [QuestionsSkipped 1], 1, 1)"
    by code_simp
  have d: "untimed_report (snd quiet_run) = ([], [], 1, 1)"
    by code_simp
  have "fst first_run \<noteq> fst second_run"
  proof
    assume "fst first_run = fst second_run"
    then show False using a b by simp
  qed
  then show ?thesis using a b c d by simp
qed

end
